theory Spec2Isabelle
  imports Main
begin

section \<open>Requests, responses and transports\<close>

text \<open>
  The package \<^verbatim>\<open>interceptor\<close> (file \<^verbatim>\<open>interceptor.go\<close>) wraps Go's
  \<^verbatim>\<open>http.RoundTripper\<close>. The types of \<^verbatim>\<open>net/url\<close> and \<^verbatim>\<open>net/http\<close> that
  the package reads and writes are modelled as records with the fields of the Go structs.
  Go strings are byte strings: \<^typ>\<open>string\<close>.
\<close>

record Userinfo =
  username :: string
  password :: string
  passwordSet :: bool

text \<open>\<^verbatim>\<open>url.URL\<close>; the field \<^verbatim>\<open>User *Userinfo\<close> is a pointer, \<open>None\<close> is \<^verbatim>\<open>nil\<close>.\<close>

record URL =
  Scheme :: string
  Opaque :: string
  User :: "Userinfo option"
  Host :: string
  Path :: string
  RawPath :: string
  OmitHost :: bool
  ForceQuery :: bool
  RawQuery :: string
  Fragment :: string
  RawFragment :: string

text \<open>
  \<^verbatim>\<open>http.Request\<close>, with the fields the package touches. The contract of
  \<^verbatim>\<open>http.RoundTripper\<close> says that the request's URL and Header fields are
  initialised, so neither is optional here. \<^verbatim>\<open>http.Header\<close> is
  \<^verbatim>\<open>map[string][]string\<close>; the field \<^verbatim>\<open>Header\<close> is \<open>Hdr\<close> here, since
  \<open>Header\<close> names the package's interceptor. The request is handed over by pointer and
  the interceptors write to it in place: a transport takes the request and gives it back
  as it left it.
\<close>

type_synonym Header_map = "string \<rightharpoonup> string list"

record Request =
  Method :: string
  URL :: URL
  Hdr :: Header_map

record Response =
  StatusCode :: int
  Body :: string

text \<open>
  A Go call either returns or panics. The only panic the package itself can raise is the
  call of a nil function value.
\<close>

datatype panic = NilDereference

text \<open>
  \<^verbatim>\<open>RoundTrip(*http.Request) (*http.Response, error)\<close>: the two results are returned
  as a pair, each possibly nil. \<open>'w\<close> is the state of everything outside the request
  (the network, a log that closures share).
\<close>

type_synonym result = "Response option \<times> string option"

type_synonym 'w RoundTripper = "Request \<Rightarrow> 'w \<Rightarrow> panic + (result \<times> Request \<times> 'w)"

text \<open>\<^verbatim>\<open>type Interceptor func(http.RoundTripper) http.RoundTripper\<close>\<close>

type_synonym 'w Interceptor = "'w RoundTripper \<Rightarrow> 'w RoundTripper"

text \<open>
  \<^verbatim>\<open>type Pipeline struct\<close>. A function value may be nil, so the slice holds optional
  interceptors; \<^verbatim>\<open>Transport\<close> is an interface value and may be nil too.
\<close>

record 'w Pipeline =
  interceptors :: "'w Interceptor option list"
  Transport :: "'w RoundTripper option"

text \<open>\<^verbatim>\<open>RoundTripperFunc\<close> and its method \<^verbatim>\<open>RoundTrip\<close>, which calls \<^verbatim>\<open>f(req)\<close>.\<close>

definition RoundTripperFunc :: "'w RoundTripper \<Rightarrow> 'w RoundTripper" where
  "RoundTripperFunc f = (\<lambda>req. f req)"

section \<open>Pipeline\<close>

text \<open>
  The loop of \<^verbatim>\<open>Pipeline.RoundTrip\<close>:
  \<^verbatim>\<open>for i := len(t.interceptors) - 1; i >= 0; i-- { transport = t.interceptors[i](transport) }\<close>.
  The argument \<open>n\<close> is \<open>i + 1\<close>. Calling a nil interceptor panics.
\<close>

fun wrap_loop :: "'w Interceptor option list \<Rightarrow> nat \<Rightarrow> 'w RoundTripper \<Rightarrow> panic + 'w RoundTripper" where
  "wrap_loop is 0 transport = Inr transport"
| "wrap_loop is (Suc i) transport =
     (case is ! i of
        None \<Rightarrow> Inl NilDereference
      | Some f \<Rightarrow> wrap_loop is i (f transport))"

text \<open>
  \<^verbatim>\<open>Pipeline.RoundTrip\<close>. \<open>DefaultTransport\<close> stands for the global
  \<^verbatim>\<open>http.DefaultTransport\<close>.
\<close>

definition RoundTrip :: "'w Pipeline \<Rightarrow> 'w RoundTripper \<Rightarrow> 'w RoundTripper" where
  "RoundTrip t DefaultTransport req w =
     (let transport = (case Transport t of None \<Rightarrow> DefaultTransport | Some tr \<Rightarrow> tr)
      in case wrap_loop (interceptors t) (length (interceptors t)) transport of
           Inl p \<Rightarrow> Inl p
         | Inr transport' \<Rightarrow> transport' req w)"

text \<open>\<^verbatim>\<open>Pipeline.Use\<close>: \<^verbatim>\<open>t.interceptors = append(t.interceptors, interceptors...)\<close>\<close>

definition Use :: "'w Pipeline \<Rightarrow> 'w Interceptor option list \<Rightarrow> 'w Pipeline" where
  "Use t is = t\<lparr>interceptors := interceptors t @ is\<rparr>"

section \<open>The library functions the interceptors call\<close>

text \<open>
  \<^verbatim>\<open>BaseURL\<close> calls \<^verbatim>\<open>url.URL.JoinPath\<close> and \<^verbatim>\<open>url.URL.ResolveReference\<close>,
  \<^verbatim>\<open>Header\<close> calls \<^verbatim>\<open>http.Header.Set\<close>. They belong to Go's standard library
  (packages \<^verbatim>\<open>strings\<close>, \<^verbatim>\<open>path\<close>, \<^verbatim>\<open>net/url\<close>, \<^verbatim>\<open>net/textproto\<close>) and are
  modelled here function by function, under the library's names.
\<close>

subsection \<open>Package strings\<close>

definition HasPrefix :: "string \<Rightarrow> string \<Rightarrow> bool" where
  "HasPrefix s prefix = (length s \<ge> length prefix \<and> take (length prefix) s = prefix)"

definition HasSuffix :: "string \<Rightarrow> string \<Rightarrow> bool" where
  "HasSuffix s suffix = (length s \<ge> length suffix \<and> drop (length s - length suffix) s = suffix)"

text \<open>
  \<^verbatim>\<open>strings.LastIndexByte\<close>: the index of the last occurrence, or \<open>-1\<close>. It also
  stands for \<^verbatim>\<open>strings.LastIndex\<close> with the one-byte separator \<^verbatim>\<open>"/"\<close>.
\<close>

definition LastIndexByte :: "string \<Rightarrow> char \<Rightarrow> int" where
  "LastIndexByte s c =
     (if c \<in> set s then int (length s) - 1 - int (length (takeWhile (\<lambda>x. x \<noteq> c) (rev s))) else - 1)"

text \<open>\<^verbatim>\<open>strings.Cut\<close> with a one-byte separator: before, after, found.\<close>

definition Cut :: "string \<Rightarrow> char \<Rightarrow> string \<times> string \<times> bool" where
  "Cut s sep =
     (if sep \<in> set s
      then (takeWhile (\<lambda>x. x \<noteq> sep) s, tl (dropWhile (\<lambda>x. x \<noteq> sep) s), True)
      else (s, [], False))"

subsection \<open>Package path\<close>

text \<open>
  The inner loop of the \<^verbatim>\<open>..\<close> case of \<^verbatim>\<open>path.Clean\<close>, after \<^verbatim>\<open>out.w--\<close>:
  \<^verbatim>\<open>for out.w > dotdot && out.index(out.w) != '/' { out.w-- }\<close>. It returns the new
  \<^verbatim>\<open>out.w\<close>.
\<close>

fun backtrack :: "string \<Rightarrow> nat \<Rightarrow> nat \<Rightarrow> nat" where
  "backtrack buf dotdot 0 = 0"
| "backtrack buf dotdot (Suc w) =
     (if Suc w > dotdot \<and> buf ! Suc w \<noteq> CHR ''/'' then backtrack buf dotdot w else Suc w)"

text \<open>
  The main loop of \<^verbatim>\<open>path.Clean\<close>: \<open>rest\<close> is \<^verbatim>\<open>path[r:]\<close>, \<open>out\<close> the
  first \<^verbatim>\<open>out.w\<close> bytes of the output buffer.
\<close>

function Clean_loop :: "bool \<Rightarrow> string \<Rightarrow> string \<Rightarrow> nat \<Rightarrow> string" where
  "Clean_loop rooted [] out dotdot = out"
| "Clean_loop rooted (c # cs) out dotdot =
     (if c = CHR ''/'' then Clean_loop rooted cs out dotdot
      else if c = CHR ''.'' \<and> (cs = [] \<or> hd cs = CHR ''/'') then Clean_loop rooted cs out dotdot
      else if c = CHR ''.'' \<and> hd cs = CHR ''.'' \<and> (tl cs = [] \<or> hd (tl cs) = CHR ''/'') then
        (if length out > dotdot then
           Clean_loop rooted (tl cs) (take (backtrack out dotdot (length out - 1)) out) dotdot
         else if \<not> rooted then
           Clean_loop rooted (tl cs) ((if length out > 0 then out @ ''/'' else out) @ ''..'')
             (length ((if length out > 0 then out @ ''/'' else out) @ ''..''))
         else Clean_loop rooted (tl cs) out dotdot)
      else
        Clean_loop rooted (dropWhile (\<lambda>x. x \<noteq> CHR ''/'') cs)
          ((if rooted \<and> length out \<noteq> 1 \<or> \<not> rooted \<and> length out \<noteq> 0 then out @ ''/'' else out)
             @ c # takeWhile (\<lambda>x. x \<noteq> CHR ''/'') cs)
          dotdot)"
  by pat_completeness auto
termination
  by (relation "measure (\<lambda>(rooted, rest, out, dotdot). length rest)")
     (auto simp: less_Suc_eq_le length_dropWhile_le intro: le_trans [OF _ le_SucI])

definition Clean :: "string \<Rightarrow> string" where
  "Clean path =
     (if path = [] then ''.''
      else
        let out = (if hd path = CHR ''/'' then Clean_loop True (tl path) ''/'' 1
                   else Clean_loop False path [] 0)
        in if out = [] then ''.'' else out)"

text \<open>\<^verbatim>\<open>path.Join\<close>\<close>

definition Join :: "string list \<Rightarrow> string" where
  "Join elem =
     (if (\<Sum>e\<leftarrow>elem. length e) = 0 then []
      else Clean (foldl (\<lambda>buf e. if buf \<noteq> [] \<or> e \<noteq> []
                                  then (if buf \<noteq> [] then buf @ ''/'' else buf) @ e
                                  else buf) [] elem))"

subsection \<open>Package net/url\<close>

text \<open>
  \<^verbatim>\<open>shouldEscape\<close>, \<^verbatim>\<open>escape\<close>, \<^verbatim>\<open>unescape\<close> and \<^verbatim>\<open>validEncoded\<close> take an
  encoding mode; the functions below call them with \<^verbatim>\<open>encodePath\<close> only, and that
  mode is what is modelled.
\<close>

definition alnum :: "char \<Rightarrow> bool" where
  "alnum c = (let n = (of_char c :: nat) in 97 \<le> n \<and> n \<le> 122 \<or> 65 \<le> n \<and> n \<le> 90 \<or> 48 \<le> n \<and> n \<le> 57)"

definition shouldEscape :: "char \<Rightarrow> bool" where
  "shouldEscape c =
     (if alnum c then False
      else if c \<in> set ''-_.~'' then False
      else if c \<in> set ''$&+,/:;=?@'' then c = CHR ''?''
      else True)"

definition upperhex :: "nat \<Rightarrow> char" where
  "upperhex n = ''0123456789ABCDEF'' ! n"

definition escape :: "string \<Rightarrow> string" where
  "escape s = concat (map (\<lambda>c. if shouldEscape c
                                 then [CHR ''%'', upperhex (of_char c div 16), upperhex (of_char c mod 16)]
                                 else [c]) s)"

definition ishex :: "char \<Rightarrow> bool" where
  "ishex c = (let n = (of_char c :: nat) in 48 \<le> n \<and> n \<le> 57 \<or> 97 \<le> n \<and> n \<le> 102 \<or> 65 \<le> n \<and> n \<le> 70)"

definition unhex :: "char \<Rightarrow> nat" where
  "unhex c = (let n = (of_char c :: nat) in
     if 48 \<le> n \<and> n \<le> 57 then n - 48
     else if 97 \<le> n \<and> n \<le> 102 then n - 97 + 10
     else if 65 \<le> n \<and> n \<le> 70 then n - 65 + 10
     else 0)"

text \<open>\<^verbatim>\<open>type EscapeError string\<close>: the offending bytes, at most three.\<close>

datatype EscapeError = EscapeError string

fun unescape :: "string \<Rightarrow> EscapeError + string" where
  "unescape [] = Inr []"
| "unescape (c # cs) =
     (if c = CHR ''%'' then
        (case cs of
           h1 # h2 # rest \<Rightarrow>
             if ishex h1 \<and> ishex h2 then
               (case unescape rest of
                  Inl e \<Rightarrow> Inl e
                | Inr t \<Rightarrow> Inr (char_of (unhex h1 * 16 + unhex h2) # t))
             else Inl (EscapeError (take 3 (c # cs)))
         | _ \<Rightarrow> Inl (EscapeError (take 3 (c # cs))))
      else (case unescape cs of Inl e \<Rightarrow> Inl e | Inr t \<Rightarrow> Inr (c # t)))"

definition validEncoded :: "string \<Rightarrow> bool" where
  "validEncoded s =
     list_all (\<lambda>c. c \<in> set ''!$&'()*+,;=:@'' \<or> c \<in> set ''[]'' \<or> c = CHR ''%'' \<or> \<not> shouldEscape c) s"

text \<open>\<^verbatim>\<open>URL.EscapedPath\<close>\<close>

definition EscapedPath :: "URL \<Rightarrow> string" where
  "EscapedPath u =
     (if RawPath u \<noteq> [] \<and> validEncoded (RawPath u) \<and> unescape (RawPath u) = Inr (Path u)
      then RawPath u
      else if Path u = ''*'' then ''*''
      else escape (Path u))"

text \<open>\<^verbatim>\<open>URL.setPath\<close>: on an error the URL is left as it was.\<close>

definition setPath :: "URL \<Rightarrow> string \<Rightarrow> URL \<times> EscapeError option" where
  "setPath u p =
     (case unescape p of
        Inl err \<Rightarrow> (u, Some err)
      | Inr path \<Rightarrow> (u\<lparr>Path := path, RawPath := (if p = escape path then [] else p)\<rparr>, None))"

text \<open>
  \<^verbatim>\<open>URL.JoinPath\<close>. The first element is given a leading slash where it has none, so
  \<^verbatim>\<open>path.Join(elem...)\<close> is never empty there and \<^verbatim>\<open>[1:]\<close> never panics. The error of
  \<^verbatim>\<open>setPath\<close> is dropped, as the library does.
\<close>

definition JoinPath :: "URL \<Rightarrow> string list \<Rightarrow> URL" where
  "JoinPath u elem0 =
     (let elem = EscapedPath u # elem0;
          elem' = (if \<not> HasPrefix (hd elem) ''/'' then (''/'' @ hd elem) # tl elem else elem);
          p = (if \<not> HasPrefix (hd elem) ''/'' then drop 1 (Join elem') else Join elem');
          p' = (if HasSuffix (last elem') ''/'' \<and> \<not> HasSuffix p ''/'' then p @ ''/'' else p)
      in fst (setPath u p'))"

text \<open>
  The loop of \<^verbatim>\<open>resolvePath\<close>, \<^verbatim>\<open>for found { elem, remaining, found = strings.Cut(remaining, "/") ... }\<close>.
  It returns the buffer and the last element.
\<close>

function resolvePath_loop :: "string \<Rightarrow> bool \<Rightarrow> string \<Rightarrow> string \<Rightarrow> bool \<Rightarrow> string \<times> string" where
  "resolvePath_loop dst first remaining elem False = (dst, elem)"
| "resolvePath_loop dst first remaining elem True =
     (case Cut remaining CHR ''/'' of (elem', remaining', found') \<Rightarrow>
        if elem' = ''.'' then resolvePath_loop dst False remaining' elem' found'
        else if elem' = ''..'' then
          (let str = drop 1 dst; index = LastIndexByte str CHR ''/'' in
           if index = - 1 then resolvePath_loop ''/'' True remaining' elem' found'
           else resolvePath_loop (''/'' @ take (nat index) str) first remaining' elem' found')
        else resolvePath_loop ((if \<not> first then dst @ ''/'' else dst) @ elem') False remaining' elem' found')"
  by pat_completeness auto
termination
  apply (relation "measure (\<lambda>(dst, first, remaining, elem, found). if found then Suc (length remaining) else 0)")
  apply simp
  apply (auto simp: Cut_def split: if_splits)
  subgoal for remaining
    using length_dropWhile_le [of "\<lambda>x. x \<noteq> CHR ''/''" remaining]
      length_pos_if_in_set [of "CHR ''/''" remaining]
    by linarith
  subgoal for dst remaining
    using length_dropWhile_le [of "\<lambda>x. x \<noteq> CHR ''/''" remaining]
      length_pos_if_in_set [of "CHR ''/''" remaining]
    by linarith
  subgoal for dst remaining
    using length_dropWhile_le [of "\<lambda>x. x \<noteq> CHR ''/''" remaining]
      length_pos_if_in_set [of "CHR ''/''" remaining]
    by linarith
  subgoal for remaining
    using length_dropWhile_le [of "\<lambda>x. x \<noteq> CHR ''/''" remaining]
      length_pos_if_in_set [of "CHR ''/''" remaining]
    by linarith
  done

definition resolvePath :: "string \<Rightarrow> string \<Rightarrow> string" where
  "resolvePath base ref =
     (let full = (if ref = [] then base
                  else if hd ref \<noteq> CHR ''/'' then take (nat (LastIndexByte base CHR ''/'' + 1)) base @ ref
                  else ref)
      in if full = [] then []
         else
           (case resolvePath_loop ''/'' True full [] True of (dst, elem) \<Rightarrow>
              let r = (if elem = ''.'' \<or> elem = ''..'' then dst @ ''/'' else dst)
              in if length r > 1 \<and> r ! 1 = CHR ''/'' then drop 1 r else r))"

text \<open>\<^verbatim>\<open>URL.ResolveReference\<close>\<close>

definition ResolveReference :: "URL \<Rightarrow> URL \<Rightarrow> URL" where
  "ResolveReference u ref =
     (let url = (if Scheme ref = [] then ref\<lparr>Scheme := Scheme u\<rparr> else ref) in
      if Scheme ref \<noteq> [] \<or> Host ref \<noteq> [] \<or> User ref \<noteq> None then
        fst (setPath url (resolvePath (EscapedPath ref) []))
      else if Opaque ref \<noteq> [] then
        url\<lparr>User := None, Host := [], Path := []\<rparr>
      else
        let url1 = (if Path ref = [] \<and> \<not> ForceQuery ref \<and> RawQuery ref = [] then
                      (let url' = url\<lparr>RawQuery := RawQuery u\<rparr> in
                       if Fragment ref = [] then url'\<lparr>Fragment := Fragment u, RawFragment := RawFragment u\<rparr>
                       else url')
                    else url)
        in if Path ref = [] \<and> Opaque u \<noteq> [] then
             url1\<lparr>Opaque := Opaque u, User := None, Host := [], Path := []\<rparr>
           else
             fst (setPath (url1\<lparr>Host := Host u, User := User u\<rparr>)
                    (resolvePath (EscapedPath u) (EscapedPath ref))))"

subsection \<open>Packages net/textproto and net/http: header keys\<close>

definition validHeaderFieldByte :: "char \<Rightarrow> bool" where
  "validHeaderFieldByte c = (alnum c \<or> c \<in> set ''!#$%&'*+-.^_`|~'')"

definition islower :: "char \<Rightarrow> bool" where
  "islower c = (97 \<le> (of_char c :: nat) \<and> (of_char c :: nat) \<le> 122)"

definition isupper :: "char \<Rightarrow> bool" where
  "isupper c = (65 \<le> (of_char c :: nat) \<and> (of_char c :: nat) \<le> 90)"

text \<open>
  The second loop of \<^verbatim>\<open>canonicalMIMEHeaderKey\<close>: upper case for the first letter and
  after each dash, lower case elsewhere (\<^verbatim>\<open>toLower = 'a' - 'A'\<close>).
\<close>

definition canon_char :: "bool \<Rightarrow> char \<Rightarrow> char" where
  "canon_char upper c =
     (if upper \<and> islower c then char_of (of_char c - (32::nat))
      else if \<not> upper \<and> isupper c then char_of (of_char c + (32::nat))
      else c)"

fun canon_loop :: "bool \<Rightarrow> string \<Rightarrow> string" where
  "canon_loop upper [] = []"
| "canon_loop upper (c # cs) = (let c' = canon_char upper c in c' # canon_loop (c' = CHR ''-'') cs)"

text \<open>
  \<^verbatim>\<open>canonicalMIMEHeaderKey\<close>: a key with a byte that is no header field byte is
  returned as it is (a space too). The table of common headers that follows in the library
  returns the same string and is left out.
\<close>

definition canonicalMIMEHeaderKey :: "string \<Rightarrow> string" where
  "canonicalMIMEHeaderKey a = (if list_all validHeaderFieldByte a then canon_loop True a else a)"

text \<open>The quick check with which \<^verbatim>\<open>CanonicalMIMEHeaderKey\<close> starts.\<close>

fun quick_check :: "bool \<Rightarrow> string \<Rightarrow> string \<Rightarrow> string" where
  "quick_check upper [] s = s"
| "quick_check upper (c # cs) s =
     (if \<not> validHeaderFieldByte c then s
      else if upper \<and> islower c then canonicalMIMEHeaderKey s
      else if \<not> upper \<and> isupper c then canonicalMIMEHeaderKey s
      else quick_check (c = CHR ''-'') cs s)"

definition CanonicalMIMEHeaderKey :: "string \<Rightarrow> string" where
  "CanonicalMIMEHeaderKey s = quick_check True s s"

text \<open>\<^verbatim>\<open>http.Header.Set\<close> and \<^verbatim>\<open>http.Header.Get\<close>\<close>

definition Set :: "Header_map \<Rightarrow> string \<Rightarrow> string \<Rightarrow> Header_map" where
  "Set h key value = h(CanonicalMIMEHeaderKey key \<mapsto> [value])"

definition Get :: "Header_map \<Rightarrow> string \<Rightarrow> string" where
  "Get h key =
     (case h (CanonicalMIMEHeaderKey key) of
        None \<Rightarrow> []
      | Some v \<Rightarrow> (case v of [] \<Rightarrow> [] | x # _ \<Rightarrow> x))"

section \<open>The interceptors\<close>

text \<open>
  \<^verbatim>\<open>BaseURL\<close>. The two assignments of the source are
  \<^verbatim>\<open>req.URL.Path = baseURL.JoinPath(req.URL.Path).Path\<close> and
  \<^verbatim>\<open>req.URL = baseURL.ResolveReference(req.URL)\<close>.
\<close>

definition BaseURL :: "URL \<Rightarrow> 'w Interceptor" where
  "BaseURL baseURL next =
     RoundTripperFunc (\<lambda>req.
       if Scheme (URL req) \<noteq> [] then next req
       else
         let req1 = req\<lparr>URL := (URL req)\<lparr>Path := Path (JoinPath baseURL [Path (URL req)])\<rparr>\<rparr>;
             req2 = req1\<lparr>URL := ResolveReference baseURL (URL req1)\<rparr>
         in next req2)"

text \<open>\<^verbatim>\<open>Header\<close>\<close>

definition Header :: "string \<Rightarrow> string \<Rightarrow> 'w Interceptor" where
  "Header key value next =
     RoundTripperFunc (\<lambda>req.
       if key \<noteq> [] then next (req\<lparr>Hdr := Set (Hdr req) key value\<rparr>)
       else next req)"

section \<open>Fixtures\<close>

text \<open>
  \<^verbatim>\<open>mockRoundTripper\<close> of \<^verbatim>\<open>interceptor_test.go\<close>: it returns its two fields and
  leaves the request alone.
\<close>

definition mockRoundTripper :: "Response option \<Rightarrow> string option \<Rightarrow> 'w RoundTripper" where
  "mockRoundTripper response err = (\<lambda>req w. Inr ((response, err), req, w))"

text \<open>The zero value \<^verbatim>\<open>url.URL{}\<close>, and a request for a URL with an empty header map.\<close>

definition zeroURL :: URL where
  "zeroURL = \<lparr>Scheme = [], Opaque = [], User = None, Host = [], Path = [], RawPath = [],
     OmitHost = False, ForceQuery = False, RawQuery = [], Fragment = [], RawFragment = []\<rparr>"

definition newRequest :: "string \<Rightarrow> URL \<Rightarrow> Request" where
  "newRequest method u = \<lparr>Method = method, URL = u, Hdr = Map.empty\<rparr>"

text \<open>The base URL of \<^verbatim>\<open>TestBaseURLInterceptor\<close>, \<^verbatim>\<open>http://base.example.com/am\<close>, parsed.\<close>

definition test_baseURL :: URL where
  "test_baseURL = zeroURL\<lparr>Scheme := ''http'', Host := ''base.example.com'', Path := ''/am''\<rparr>"

text \<open>A base URL with a query string and a fragment and no path: \<^verbatim>\<open>http://base.example.com?x=1#top\<close>.\<close>

definition query_baseURL :: URL where
  "query_baseURL = zeroURL\<lparr>Scheme := ''http'', Host := ''base.example.com'', RawQuery := ''x=1'', Fragment := ''top''\<rparr>"

text \<open>
  Interceptors that write to a log shared by their closures: a marker before they
  delegate and one after. The log is the state \<open>'w\<close>. The terminal transport writes its
  own entry.
\<close>

datatype 'm event = Pre 'm | Terminal | Post 'm

definition marker :: "'m \<Rightarrow> 'm event list Interceptor" where
  "marker m next =
     RoundTripperFunc (\<lambda>req w.
       case next req (w @ [Pre m]) of
         Inl p \<Rightarrow> Inl p
       | Inr (res, req', w') \<Rightarrow> Inr (res, req', w' @ [Post m]))"

definition terminal :: "result \<Rightarrow> 'm event list RoundTripper" where
  "terminal res = RoundTripperFunc (\<lambda>req w. Inr (res, req, w @ [Terminal]))"

text \<open>An interceptor that only delegates, and one that answers by itself (a cache).\<close>

definition noop :: "'w Interceptor" where
  "noop next = RoundTripperFunc (\<lambda>req. next req)"

definition answer :: "result \<Rightarrow> 'w Interceptor" where
  "answer res next = RoundTripperFunc (\<lambda>req w. Inr (res, req, w))"

text \<open>The interceptors that the package itself provides.\<close>

datatype builtin = BaseURL_with URL | Header_with string string

fun builtin_interceptor :: "builtin \<Rightarrow> 'w Interceptor" where
  "builtin_interceptor (BaseURL_with baseURL) = BaseURL baseURL"
| "builtin_interceptor (Header_with key value) = Header key value"

text \<open>ASCII lower case of a byte; two header names are compared through it.\<close>

definition lower :: "char \<Rightarrow> char" where
  "lower c = (if isupper c then char_of (of_char c + (32::nat)) else c)"

section \<open>The path resolution as the specification words it\<close>

text \<open>
  The specification describes the resolved path as: split both paths into segments,
  concatenate the base segments with the request segments, then collapse \<^verbatim>\<open>.\<close> and
  \<^verbatim>\<open>..\<close> as a stack, one prior segment popped per \<^verbatim>\<open>..\<close>, and a \<^verbatim>\<open>..\<close> at the
  root discarded. These definitions follow those words, not the code. The words say
  nothing of a trailing slash on the request path (the library keeps one); no path at
  which the definitions are used below ends in a slash.
\<close>

fun spec_split :: "string \<Rightarrow> string \<Rightarrow> string list" where
  "spec_split cur [] = [cur]"
| "spec_split cur (c # cs) = (if c = CHR ''/'' then cur # spec_split [] cs else spec_split (cur @ [c]) cs)"

definition spec_segments :: "string \<Rightarrow> string list" where
  "spec_segments p = filter (\<lambda>seg. seg \<noteq> []) (spec_split [] p)"

fun spec_collapse :: "string list \<Rightarrow> string list \<Rightarrow> string list" where
  "spec_collapse stack [] = stack"
| "spec_collapse stack (seg # segs) =
     (if seg = ''.'' then spec_collapse stack segs
      else if seg = ''..'' then spec_collapse (butlast stack) segs
      else spec_collapse (stack @ [seg]) segs)"

definition spec_resolved_path :: "string \<Rightarrow> string \<Rightarrow> string" where
  "spec_resolved_path base_path request_path =
     (let segs = spec_collapse [] (spec_segments base_path @ spec_segments request_path)
      in if segs = [] then ''/'' else concat (map (\<lambda>seg. CHR ''/'' # seg) segs))"

section \<open>Pipeline: building the chain\<close>

lemma wrap_loop_Some:
  "n \<le> length fs \<Longrightarrow> wrap_loop (map Some fs) n t = Inr (foldr (\<lambda>f t. f t) (take n fs) t)"
proof (induction n arbitrary: t)
  case 0
  show ?case by simp
next
  case (Suc n)
  then have "n < length fs" by simp
  then have "take (Suc n) fs = take n fs @ [fs ! n]"
    by (simp add: take_Suc_conv_app_nth)
  with Suc show ?case by simp
qed

lemma wrap_loop_nil:
  "n \<le> length fs \<Longrightarrow> None \<in> set (take n fs) \<Longrightarrow> wrap_loop fs n t = Inl NilDereference"
proof (induction n arbitrary: t)
  case 0
  then show ?case by simp
next
  case (Suc n)
  then have n: "n < length fs" by simp
  then have tk: "take (Suc n) fs = take n fs @ [fs ! n]"
    by (simp add: take_Suc_conv_app_nth)
  show ?case
  proof (cases "fs ! n")
    case None
    then show ?thesis by simp
  next
    case (Some f)
    with Suc.prems tk have "None \<in> set (take n fs)" by auto
    with Suc.IH n Some show ?thesis by simp
  qed
qed

lemma wrap_loop_append_left:
  "n \<le> length xs \<Longrightarrow> wrap_loop (xs @ ys) n t = wrap_loop xs n t"
  by (induction n arbitrary: t) (auto simp: nth_append split: option.splits)

lemma wrap_loop_append_Some:
  "k \<le> length gs \<Longrightarrow>
     wrap_loop (xs @ map Some gs) (length xs + k) t =
     wrap_loop xs (length xs) (foldr (\<lambda>f t. f t) (take k gs) t)"
proof (induction k arbitrary: t)
  case 0
  show ?case by (simp add: wrap_loop_append_left)
next
  case (Suc k)
  then have k: "k < length gs" by simp
  then have tk: "take (Suc k) gs = take k gs @ [gs ! k]"
    by (simp add: take_Suc_conv_app_nth)
  from k have "(xs @ map Some gs) ! (length xs + k) = Some (gs ! k)"
    by (simp add: nth_append)
  with Suc tk show ?case by simp
qed

lemma RoundTrip_Some:
  "RoundTrip \<lparr>interceptors = map Some fs, Transport = tr\<rparr> d =
     foldr (\<lambda>f t. f t) fs (case tr of None \<Rightarrow> d | Some t \<Rightarrow> t)"
  by (rule ext, rule ext) (simp add: RoundTrip_def wrap_loop_Some [of "length fs" fs, simplified])

lemma markers_chain:
  "foldr (\<lambda>f t. f t) (map marker ms) (terminal res) req w =
     Inr (res, req, w @ map Pre ms @ [Terminal] @ rev (map Post ms))"
  by (induction ms arbitrary: w) (simp_all add: marker_def terminal_def RoundTripperFunc_def)

lemma not_None_map_Some: "None \<notin> set xs \<Longrightarrow> xs = map Some (map the xs)"
  by (induction xs) auto

lemma RoundTrip_nil:
  "None \<in> set (interceptors t) \<Longrightarrow> RoundTrip t d req w = Inl NilDereference"
  by (simp add: RoundTrip_def wrap_loop_nil)

lemma RoundTrip_append_Some:
  "RoundTrip \<lparr>interceptors = xs @ map Some gs, Transport = tr\<rparr> d =
   RoundTrip \<lparr>interceptors = xs, Transport = Some (foldr (\<lambda>f t. f t) gs (case tr of None \<Rightarrow> d | Some t \<Rightarrow> t))\<rparr> d"
  by (rule ext, rule ext)
     (simp add: RoundTrip_def wrap_loop_append_Some [of "length gs" gs, simplified])

lemma RoundTrip_total:
  "RoundTrip t d =
     (if None \<in> set (interceptors t) then (\<lambda>req w. Inl NilDereference)
      else foldr (\<lambda>f t. f t) (map the (interceptors t)) (case Transport t of None \<Rightarrow> d | Some tr \<Rightarrow> tr))"
proof (cases "None \<in> set (interceptors t)")
  case True
  then show ?thesis by (auto simp: RoundTrip_nil intro!: ext)
next
  case False
  then have "interceptors t = map Some (map the (interceptors t))" by (rule not_None_map_Some)
  then have "t = \<lparr>interceptors = map Some (map the (interceptors t)), Transport = Transport t\<rparr>"
    by simp
  then have "RoundTrip t d = RoundTrip \<lparr>interceptors = map Some (map the (interceptors t)), Transport = Transport t\<rparr> d"
    by simp
  with False show ?thesis by (simp only: RoundTrip_Some if_False)
qed

text \<open>
  Claim C1, amended. For a pipeline whose interceptor sequence holds no nil interceptor,
  \<open>RoundTrip\<close> runs the chain \<open>f\<^sub>1 (f\<^sub>2 (\<dots> (f\<^sub>N transport)))\<close> of its interceptors in
  registration order: the last registered interceptor wraps the terminal transport first,
  the first registered one is outermost. For \<open>N\<close> interceptors that each log a marker
  before and after delegating, the log of one request reads
  marker 1 pre, \<dots>, marker N pre, terminal, marker N post, \<dots>, marker 1 post.
\<close>

theorem RoundTrip_onion_order:
  assumes "None \<notin> set (interceptors t)"
  shows "RoundTrip t d =
           foldr (\<lambda>f t. f t) (map the (interceptors t)) (case Transport t of None \<Rightarrow> d | Some tr \<Rightarrow> tr)
         \<and> RoundTrip \<lparr>interceptors = map (\<lambda>m. Some (marker m)) ms, Transport = Some (terminal res)\<rparr> d' req w =
           Inr (res, req, w @ map Pre ms @ [Terminal] @ rev (map Post ms))"
proof
  show "RoundTrip t d =
           foldr (\<lambda>f t. f t) (map the (interceptors t)) (case Transport t of None \<Rightarrow> d | Some tr \<Rightarrow> tr)"
    using assms by (simp only: RoundTrip_total if_False)
  have "map (\<lambda>m. Some (marker m)) ms = map Some (map marker ms)" by simp
  then show "RoundTrip \<lparr>interceptors = map (\<lambda>m. Some (marker m)) ms, Transport = Some (terminal res)\<rparr> d' req w =
     Inr (res, req, w @ map Pre ms @ [Terminal] @ rev (map Post ms))"
    by (simp only: RoundTrip_Some markers_chain option.case)
qed

theorem RoundTrip_onion_order_witness:
  "None \<notin> set (interceptors \<lparr>interceptors = [Some (marker (1::nat)), Some (marker 2)], Transport = Some (terminal (None, None))\<rparr>)
   \<and> RoundTrip \<lparr>interceptors = [Some (marker (1::nat)), Some (marker 2)], Transport = Some (terminal (None, None))\<rparr>
        (terminal (None, None)) (newRequest ''GET'' zeroURL) [] =
      marker 1 (marker 2 (terminal (None, None))) (newRequest ''GET'' zeroURL) []
   \<and> marker (1::nat) (marker 2 (terminal (None, None))) (newRequest ''GET'' zeroURL) [] =
      Inr ((None, None), newRequest ''GET'' zeroURL, [Pre 1, Pre 2, Terminal, Post 2, Post 1])"
proof -
  let ?t = "\<lparr>interceptors = [Some (marker (1::nat)), Some (marker 2)], Transport = Some (terminal (None, None))\<rparr>"
  have h: "None \<notin> set (interceptors ?t)" by simp
  have "RoundTrip ?t (terminal (None, None)) =
        foldr (\<lambda>f t. f t) (map the (interceptors ?t)) (case Transport ?t of None \<Rightarrow> terminal (None, None) | Some tr \<Rightarrow> tr)"
    by (rule RoundTrip_onion_order [OF h, THEN conjunct1])
  then have a: "RoundTrip ?t (terminal (None, None)) (newRequest ''GET'' zeroURL) [] =
      marker 1 (marker 2 (terminal (None, None))) (newRequest ''GET'' zeroURL) []"
    by simp
  have b: "marker (1::nat) (marker 2 (terminal (None, None))) (newRequest ''GET'' zeroURL) [] =
      Inr ((None, None), newRequest ''GET'' zeroURL, [Pre 1, Pre 2, Terminal, Post 2, Post 1])"
    by (simp add: marker_def terminal_def RoundTripperFunc_def)
  show ?thesis by (intro conjI) (rule h a b)+
qed

text \<open>
  The claim as stated fails for a sequence with a nil entry: with a nil interceptor
  between two marker interceptors the call panics and there is no chain and no log.
\<close>

theorem RoundTrip_nil_entry_counterexample:
  "RoundTrip \<lparr>interceptors = [Some (marker (1::nat)), None, Some (marker 2)], Transport = Some (terminal (None, None))\<rparr>
     (terminal (None, None)) (newRequest ''GET'' zeroURL) [] = Inl NilDereference
   \<and> RoundTrip \<lparr>interceptors = [Some (marker (1::nat)), None, Some (marker 2)], Transport = Some (terminal (None, None))\<rparr>
     (terminal (None, None)) (newRequest ''GET'' zeroURL) [] \<noteq>
     Inr ((None, None), newRequest ''GET'' zeroURL, [Pre 1, Pre 2, Terminal, Post 2, Post 1])"
  by (simp add: RoundTrip_def)

text \<open>
  Claim C8. \<open>Use a\<close> followed by \<open>Use b\<close> leaves the pipeline in the state that one
  \<open>Use\<close> of \<open>a @ b\<close> leaves it in: \<open>Use\<close> appends to the end of the sequence, so the
  interceptors of the first call come first, and the two pipelines run the same chain.
\<close>

theorem Use_batches:
  "Use (Use t a) b = Use t (a @ b)
   \<and> interceptors (Use t a) = interceptors t @ a
   \<and> RoundTrip (Use (Use t a) b) d = RoundTrip (Use t (a @ b)) d"
  by (simp add: Use_def)

text \<open>
  Claim C9, amended. A pipeline \<open>outer\<close> whose terminal transport is a pipeline
  \<open>inner\<close> over the transport \<open>tr\<close> is the same transport (same result, same request
  handed back, same state for every request and state) as the single pipeline
  \<open>outer @ inner\<close> over \<open>tr\<close>, provided that \<open>inner\<close> holds no nil interceptor.
\<close>

theorem nested_pipeline_flattens:
  assumes "None \<notin> set inner"
  shows "RoundTrip \<lparr>interceptors = outer,
            Transport = Some (RoundTrip \<lparr>interceptors = inner, Transport = tr\<rparr> d)\<rparr> d =
         RoundTrip \<lparr>interceptors = outer @ inner, Transport = tr\<rparr> d"
proof -
  from assms obtain gs where inner: "inner = map Some gs"
    using not_None_map_Some by blast
  show ?thesis
    unfolding inner by (simp only: RoundTrip_Some RoundTrip_append_Some)
qed

theorem nested_pipeline_flattens_witness:
  "None \<notin> set [Some (marker (2::nat))]
   \<and> RoundTrip \<lparr>interceptors = [Some (marker (1::nat))],
        Transport = Some (RoundTrip \<lparr>interceptors = [Some (marker 2)], Transport = Some (terminal (None, None))\<rparr>
                            (terminal (None, None)))\<rparr>
       (terminal (None, None)) (newRequest ''GET'' zeroURL) [] =
     Inr ((None, None), newRequest ''GET'' zeroURL, [Pre 1, Pre 2, Terminal, Post 2, Post 1])"
proof -
  have h: "None \<notin> set [Some (marker (2::nat))]" by simp
  have "RoundTrip \<lparr>interceptors = [Some (marker (1::nat))] @ [Some (marker 2)], Transport = Some (terminal (None, None))\<rparr>
       (terminal (None, None)) (newRequest ''GET'' zeroURL) [] =
     Inr ((None, None), newRequest ''GET'' zeroURL, [Pre 1, Pre 2, Terminal, Post 2, Post 1])"
    by (simp add: RoundTrip_def marker_def terminal_def RoundTripperFunc_def)
  with h show ?thesis
    by (simp only: nested_pipeline_flattens [OF h] simp_thms)
qed

text \<open>
  The claim as stated fails when \<open>inner\<close> holds a nil interceptor that the nested chain
  never reaches: the outer interceptor answers by itself, so the nested pipeline returns,
  while the single pipeline panics as it builds its chain.
\<close>

theorem nested_pipeline_counterexample:
  "RoundTrip \<lparr>interceptors = [Some (answer (None, None))],
      Transport = Some (RoundTrip \<lparr>interceptors = [None], Transport = None\<rparr> (mockRoundTripper None None))\<rparr>
      (mockRoundTripper None None) (newRequest ''GET'' zeroURL) ()
   \<noteq> RoundTrip \<lparr>interceptors = [Some (answer (None, None))] @ [None], Transport = None\<rparr>
      (mockRoundTripper None None) (newRequest ''GET'' zeroURL) ()"
  by (simp add: RoundTrip_def answer_def RoundTripperFunc_def)

text \<open>
  Claim C5, amended. \<open>Use\<close> accepts a nil interceptor as it accepts any other, but
  \<open>RoundTrip\<close> on a pipeline whose sequence holds a nil interceptor fails on account of
  it: the call panics (the call of a nil function) and returns no result, whatever the
  other interceptors and the transport are. An interceptor that only delegates is the
  no-op: with it or without it the pipeline is the same transport.
\<close>

theorem nil_interceptor_panics:
  "interceptors (Use t [None]) = interceptors t @ [None]
   \<and> (None \<in> set (interceptors t) \<longrightarrow> RoundTrip t d req w = Inl NilDereference)
   \<and> RoundTrip \<lparr>interceptors = xs @ [Some noop] @ map Some gs, Transport = tr\<rparr> d' =
     RoundTrip \<lparr>interceptors = xs @ map Some gs, Transport = tr\<rparr> d'"
proof (intro conjI impI)
  show "interceptors (Use t [None]) = interceptors t @ [None]" by (simp add: Use_def)
  show "RoundTrip t d req w = Inl NilDereference" if "None \<in> set (interceptors t)"
    using that by (rule RoundTrip_nil)
  have "xs @ [Some noop] @ map Some gs = xs @ map Some (noop # gs)" by simp
  moreover have "foldr (\<lambda>f t. f t) (noop # gs) x = foldr (\<lambda>f t. f t) gs x" for x
    by (simp add: noop_def RoundTripperFunc_def)
  ultimately show "RoundTrip \<lparr>interceptors = xs @ [Some noop] @ map Some gs, Transport = tr\<rparr> d' =
     RoundTrip \<lparr>interceptors = xs @ map Some gs, Transport = tr\<rparr> d'"
    by (simp only: RoundTrip_append_Some)
qed

theorem nil_interceptor_panics_witness:
  "None \<in> set (interceptors (Use \<lparr>interceptors = [Some (marker (1::nat))], Transport = None\<rparr> [None]))
   \<and> RoundTrip (Use \<lparr>interceptors = [Some (marker (1::nat))], Transport = None\<rparr> [None])
        (terminal (None, None)) (newRequest ''GET'' zeroURL) [] = Inl NilDereference"
proof -
  have h: "None \<in> set (interceptors (Use \<lparr>interceptors = [Some (marker (1::nat))], Transport = None\<rparr> [None]))"
    by (simp add: Use_def)
  with nil_interceptor_panics
    [of "Use \<lparr>interceptors = [Some (marker (1::nat))], Transport = None\<rparr> [None]"
        "terminal (None, None)" "newRequest ''GET'' zeroURL" "[]"]
  show ?thesis by blast
qed

text \<open>
  The claim as stated fails: with a nil interceptor registered the request is not passed
  through to the transport, the call panics.
\<close>

theorem nil_interceptor_counterexample:
  "RoundTrip (Use \<lparr>interceptors = [], Transport = None\<rparr> [None]) (mockRoundTripper None None)
     (newRequest ''GET'' zeroURL) ()
   \<noteq> mockRoundTripper None None (newRequest ''GET'' zeroURL) ()"
  by (simp add: RoundTrip_def Use_def mockRoundTripper_def)

section \<open>The built-in interceptors delegate\<close>

lemma BaseURL_delegates: "\<exists>req'. \<forall>next w. BaseURL b next req w = next req' w"
  by (cases "Scheme (URL req) = []") (auto simp: BaseURL_def RoundTripperFunc_def Let_def)

lemma Header_delegates: "\<exists>req'. \<forall>next w. Header k v next req w = next req' w"
  by (cases "k = []") (auto simp: Header_def RoundTripperFunc_def)

lemma builtin_delegates: "\<exists>req'. \<forall>next w. builtin_interceptor b next req w = next req' w"
  by (cases b) (simp_all add: BaseURL_delegates Header_delegates)

lemma builtin_chain:
  "\<exists>req'. \<forall>T w. foldr (\<lambda>f t. f t) (map builtin_interceptor bs) T req w = T req' w"
proof (induction bs arbitrary: req)
  case Nil
  show ?case by auto
next
  case (Cons b bs)
  obtain req1 where 1: "\<And>next w. builtin_interceptor b next req w = next req1 (w::'a)"
    using builtin_delegates [where 'a = 'a] by blast
  obtain req2 where 2: "\<And>T w. foldr (\<lambda>f t. f t) (map builtin_interceptor bs) T req1 w = T req2 (w::'a)"
    using Cons.IH by blast
  show ?case by (rule exI [of _ req2]) (simp add: 1 2)
qed

text \<open>
  Claim C7. Whatever the next link returns (a response, an error, both or neither) is what
  the caller gets: a pipeline of built-in interceptors calls its terminal transport once,
  in the state it was called in, with some request, and returns that call's result as it
  is; so do \<open>BaseURL\<close> and \<open>Header\<close> with their next transport. A pipeline without
  interceptors is its terminal transport, and a pipeline with interceptors is its first
  interceptor applied to the pipeline of the others: \<open>RoundTrip\<close> puts nothing around
  them. Nothing is wrapped, replaced, swallowed or retried.
\<close>

theorem builtins_return_the_result_as_produced:
  "(\<exists>req'. \<forall>tr d w. RoundTrip \<lparr>interceptors = map (\<lambda>b. Some (builtin_interceptor b)) bs, Transport = tr\<rparr> d req w =
       (case tr of None \<Rightarrow> d | Some T \<Rightarrow> T) req' w)
   \<and> (\<exists>req'. \<forall>next w. BaseURL baseURL next req w = next req' w)
   \<and> (\<exists>req'. \<forall>next w. Header key value next req w = next req' w)
   \<and> RoundTrip \<lparr>interceptors = [], Transport = tr'\<rparr> d' = (case tr' of None \<Rightarrow> d' | Some T \<Rightarrow> T)
   \<and> RoundTrip \<lparr>interceptors = map Some (f # fs), Transport = tr'\<rparr> d' =
       f (RoundTrip \<lparr>interceptors = map Some fs, Transport = tr'\<rparr> d')"
proof (intro conjI)
  have m: "map (\<lambda>b. Some (builtin_interceptor b)) bs = map Some (map builtin_interceptor bs)" by simp
  obtain req' where "\<And>T w. foldr (\<lambda>f t. f t) (map builtin_interceptor bs) T req w = T req' (w::'a)"
    using builtin_chain [where 'a = 'a] by blast
  then show "\<exists>req'. \<forall>tr d w. RoundTrip \<lparr>interceptors = map (\<lambda>b. Some (builtin_interceptor b)) bs, Transport = tr\<rparr> d req w =
       (case tr of None \<Rightarrow> d | Some T \<Rightarrow> T) req' (w::'a)"
    by (simp only: m RoundTrip_Some) blast
  show "\<exists>req'. \<forall>next w. BaseURL baseURL next req w = next req' w" by (rule BaseURL_delegates)
  show "\<exists>req'. \<forall>next w. Header key value next req w = next req' w" by (rule Header_delegates)
  show "RoundTrip \<lparr>interceptors = [], Transport = tr'\<rparr> d' = (case tr' of None \<Rightarrow> d' | Some T \<Rightarrow> T)"
    using RoundTrip_Some [of "[]" tr' d'] by simp
  show "RoundTrip \<lparr>interceptors = map Some (f # fs), Transport = tr'\<rparr> d' =
       f (RoundTrip \<lparr>interceptors = map Some fs, Transport = tr'\<rparr> d')"
    by (simp only: RoundTrip_Some foldr.simps comp_apply)
qed

lemma Scheme_setPath [simp]: "Scheme (fst (setPath u p)) = Scheme u"
  by (simp add: setPath_def split: sum.splits)

lemma Scheme_ResolveReference: "Scheme ref = [] \<Longrightarrow> Scheme (ResolveReference u ref) = Scheme u"
  by (simp add: ResolveReference_def Let_def)

text \<open>
  Claim C3. A request whose URL has a non-empty scheme goes to the next transport as it
  is. The scheme alone decides: with an empty scheme, whatever the path, the next
  transport gets the request with the resolved URL, which carries the base URL's scheme
  (so the request is changed whenever the base URL has a scheme).
\<close>

theorem BaseURL_bypass:
  "(Scheme (URL req) \<noteq> [] \<longrightarrow> (\<forall>next w. BaseURL baseURL next req w = next req w))
   \<and> (Scheme (URL req) = [] \<longrightarrow>
        (\<exists>u'. (\<forall>next w. BaseURL baseURL next req w = next (req\<lparr>URL := u'\<rparr>) w)
              \<and> u' = ResolveReference baseURL ((URL req)\<lparr>Path := Path (JoinPath baseURL [Path (URL req)])\<rparr>)
              \<and> Scheme u' = Scheme baseURL
              \<and> (Scheme baseURL \<noteq> [] \<longrightarrow> req\<lparr>URL := u'\<rparr> \<noteq> req)))"
proof (intro conjI impI)
  show "\<forall>next w. BaseURL baseURL next req w = next req w" if "Scheme (URL req) \<noteq> []"
    using that by (simp add: BaseURL_def RoundTripperFunc_def)
  show "\<exists>u'. (\<forall>next w. BaseURL baseURL next req w = next (req\<lparr>URL := u'\<rparr>) w)
              \<and> u' = ResolveReference baseURL ((URL req)\<lparr>Path := Path (JoinPath baseURL [Path (URL req)])\<rparr>)
              \<and> Scheme u' = Scheme baseURL
              \<and> (Scheme baseURL \<noteq> [] \<longrightarrow> req\<lparr>URL := u'\<rparr> \<noteq> req)" if s: "Scheme (URL req) = []"
  proof -
    let ?u = "ResolveReference baseURL ((URL req)\<lparr>Path := Path (JoinPath baseURL [Path (URL req)])\<rparr>)"
    have sch: "Scheme ?u = Scheme baseURL" using s by (simp add: Scheme_ResolveReference)
    have "req\<lparr>URL := ?u\<rparr> \<noteq> req" if "Scheme baseURL \<noteq> []"
    proof
      assume "req\<lparr>URL := ?u\<rparr> = req"
      then have "URL (req\<lparr>URL := ?u\<rparr>) = URL req" by simp
      then have "?u = URL req" by simp
      with sch s that show False by simp
    qed
    with sch s show ?thesis
      by (simp add: BaseURL_def RoundTripperFunc_def Let_def)
  qed
qed


theorem BaseURL_bypass_witness:
  "Scheme (URL (newRequest ''GET'' (zeroURL\<lparr>Scheme := ''https'', Host := ''google.com''\<rparr>))) \<noteq> []
   \<and> BaseURL test_baseURL (mockRoundTripper None None)
        (newRequest ''GET'' (zeroURL\<lparr>Scheme := ''https'', Host := ''google.com''\<rparr>)) () =
      Inr ((None, None), newRequest ''GET'' (zeroURL\<lparr>Scheme := ''https'', Host := ''google.com''\<rparr>), ())
   \<and> Scheme (URL (newRequest ''GET'' (zeroURL\<lparr>Path := ''/oauth2''\<rparr>))) = []
   \<and> Scheme test_baseURL \<noteq> []
   \<and> BaseURL test_baseURL (mockRoundTripper None None) (newRequest ''GET'' (zeroURL\<lparr>Path := ''/oauth2''\<rparr>)) () =
      Inr ((None, None), newRequest ''GET'' (test_baseURL\<lparr>Path := ''/am/oauth2''\<rparr>), ())
   \<and> newRequest ''GET'' (test_baseURL\<lparr>Path := ''/am/oauth2''\<rparr>) \<noteq> newRequest ''GET'' (zeroURL\<lparr>Path := ''/oauth2''\<rparr>)"
proof -
  let ?g = "newRequest ''GET'' (zeroURL\<lparr>Scheme := ''https'', Host := ''google.com''\<rparr>)"
  let ?o = "newRequest ''GET'' (zeroURL\<lparr>Path := ''/oauth2''\<rparr>)"
  have sg: "Scheme (URL ?g) \<noteq> []" by (simp add: newRequest_def)
  have so: "Scheme (URL ?o) = []" by (simp add: newRequest_def zeroURL_def)
  have sb: "Scheme test_baseURL \<noteq> []" by (simp add: test_baseURL_def)
  have "BaseURL test_baseURL (mockRoundTripper None None) ?g () = mockRoundTripper None None ?g ()"
    by (rule BaseURL_bypass [of ?g test_baseURL, THEN conjunct1, THEN mp, OF sg, THEN spec, THEN spec])
  then have a: "BaseURL test_baseURL (mockRoundTripper None None) ?g () = Inr ((None, None), ?g, ())"
    by (simp add: mockRoundTripper_def)
  have ev: "ResolveReference test_baseURL ((zeroURL\<lparr>Path := ''/oauth2''\<rparr>)
               \<lparr>Path := Path (JoinPath test_baseURL [Path (zeroURL\<lparr>Path := ''/oauth2''\<rparr>)])\<rparr>)
            = test_baseURL\<lparr>Path := ''/am/oauth2''\<rparr>"
    by code_simp
  from BaseURL_bypass [of ?o test_baseURL, THEN conjunct2, THEN mp, OF so]
  obtain u' where 1: "\<forall>next w. BaseURL test_baseURL next ?o w = next (?o\<lparr>URL := u'\<rparr>) (w::unit)"
    and 2: "u' = ResolveReference test_baseURL ((URL ?o)\<lparr>Path := Path (JoinPath test_baseURL [Path (URL ?o)])\<rparr>)"
    and 3: "Scheme test_baseURL \<noteq> [] \<longrightarrow> ?o\<lparr>URL := u'\<rparr> \<noteq> ?o"
    by blast
  from 2 ev have u': "u' = test_baseURL\<lparr>Path := ''/am/oauth2''\<rparr>" by (simp add: newRequest_def)
  from 1 have "BaseURL test_baseURL (mockRoundTripper None None) ?o () = mockRoundTripper None None (?o\<lparr>URL := u'\<rparr>) ()"
    by blast
  then have b: "BaseURL test_baseURL (mockRoundTripper None None) ?o () =
      Inr ((None, None), newRequest ''GET'' (test_baseURL\<lparr>Path := ''/am/oauth2''\<rparr>), ())"
    by (simp add: u' mockRoundTripper_def newRequest_def)
  from 3 sb have c: "newRequest ''GET'' (test_baseURL\<lparr>Path := ''/am/oauth2''\<rparr>) \<noteq> ?o"
    by (simp add: u' newRequest_def)
  show ?thesis
    by (intro conjI) (rule sg a so sb b c)+
qed

section \<open>Header\<close>

lemma lower_upper: "isupper c \<Longrightarrow> islower (lower c) \<and> \<not> isupper (lower c)"
  by (simp add: lower_def isupper_def islower_def)

lemma lower_back: "isupper c \<Longrightarrow> char_of (of_char (lower c) - (32::nat)) = c"
  by (simp add: lower_def isupper_def)

lemma lower_not_upper: "\<not> isupper c \<Longrightarrow> lower c = c"
  by (simp add: lower_def)

lemma upper_not_lower: "isupper c \<Longrightarrow> \<not> islower c"
  by (simp add: isupper_def islower_def)


lemma canon_char_lower: "canon_char up (lower c) = canon_char up c"
proof (cases "isupper c")
  case True
  note u = lower_upper [OF True] lower_back [OF True] upper_not_lower [OF True]
  show ?thesis
  proof (cases up)
    case True
    with u show ?thesis by (simp add: canon_char_def)
  next
    case False
    with u \<open>isupper c\<close> show ?thesis by (simp add: canon_char_def lower_def)
  qed
next
  case False
  then show ?thesis by (simp add: lower_not_upper)
qed

lemma canon_loop_Cons: "canon_loop up (c # cs) = canon_char up c # canon_loop (canon_char up c = CHR ''-'') cs"
  by (simp add: Let_def)

lemma canon_loop_lower:
  "map lower k' = map lower k \<Longrightarrow> canon_loop up k' = canon_loop up k"
proof (induction k arbitrary: k' up)
  case Nil
  then show ?case by simp
next
  case (Cons c cs)
  then obtain c' cs' where k': "k' = c' # cs'" and c: "lower c' = lower c" and cs: "map lower cs' = map lower cs"
    by (cases k') auto
  have "canon_char up c' = canon_char up (lower c')" by (simp only: canon_char_lower)
  also have "\<dots> = canon_char up (lower c)" by (simp only: c)
  also have "\<dots> = canon_char up c" by (simp only: canon_char_lower)
  finally have cc: "canon_char up c' = canon_char up c" .
  show ?case
    unfolding k' canon_loop_Cons cc using Cons.IH [OF cs] by simp
qed


lemma isupper_alnum: "isupper c \<Longrightarrow> alnum c"
  by (simp add: isupper_def alnum_def Let_def)

lemma islower_alnum: "islower c \<Longrightarrow> alnum c"
  by (simp add: islower_def alnum_def Let_def)

lemma valid_lower: "validHeaderFieldByte (lower c) = validHeaderFieldByte c"
proof (cases "isupper c")
  case True
  then have "alnum c" by (rule isupper_alnum)
  moreover from True have "alnum (lower c)" using lower_upper islower_alnum by blast
  ultimately show ?thesis unfolding validHeaderFieldByte_def by (simp only: simp_thms)
next
  case False
  then have "lower c = c" by (rule lower_not_upper)
  then show ?thesis by simp
qed

lemma valid_map_lower: "list_all validHeaderFieldByte (map lower x) = list_all validHeaderFieldByte x"
  by (induction x) (simp_all add: valid_lower)

lemma valid_lower_all:
  assumes "map lower k' = map lower k"
  shows "list_all validHeaderFieldByte k' = list_all validHeaderFieldByte k"
proof -
  have "list_all validHeaderFieldByte k' = list_all validHeaderFieldByte (map lower k')"
    by (simp only: valid_map_lower)
  also have "\<dots> = list_all validHeaderFieldByte (map lower k)" by (simp only: assms)
  also have "\<dots> = list_all validHeaderFieldByte k" by (simp only: valid_map_lower)
  finally show ?thesis .
qed


lemma quick_check_canon:
  "list_all validHeaderFieldByte (pre @ cs) \<Longrightarrow> canon_loop True (pre @ cs) = pre @ canon_loop up cs \<Longrightarrow>
     quick_check up cs (pre @ cs) = canon_loop True (pre @ cs)"
proof (induction cs arbitrary: pre up)
  case Nil
  then show ?case by simp
next
  case (Cons c cs)
  have v: "validHeaderFieldByte c" using Cons.prems(1) by simp
  show ?case
  proof (cases "up \<and> islower c \<or> \<not> up \<and> isupper c")
    case True
    have "canonicalMIMEHeaderKey (pre @ c # cs) = canon_loop True (pre @ c # cs)"
      using Cons.prems(1) by (simp only: canonicalMIMEHeaderKey_def if_True)
    moreover have "quick_check up (c # cs) (pre @ c # cs) = canonicalMIMEHeaderKey (pre @ c # cs)"
      using True v by (cases up) (simp_all only: quick_check.simps simp_thms if_True if_False split: if_splits)
    ultimately show ?thesis by simp
  next
    case False
    then have cc: "canon_char up c = c" by (auto simp: canon_char_def)
    have "quick_check (c = CHR ''-'') cs ((pre @ [c]) @ cs) = canon_loop True ((pre @ [c]) @ cs)"
    proof (rule Cons.IH)
      show "list_all validHeaderFieldByte ((pre @ [c]) @ cs)" using Cons.prems(1) by simp
      show "canon_loop True ((pre @ [c]) @ cs) = (pre @ [c]) @ canon_loop (c = CHR ''-'') cs"
        using Cons.prems(2) cc by (simp add: canon_loop_Cons del: canon_loop.simps)
    qed
    then have "quick_check (c = CHR ''-'') cs (pre @ c # cs) = canon_loop True (pre @ c # cs)" by simp
    moreover from False have "\<not> (up \<and> islower c)" and "\<not> (\<not> up \<and> isupper c)" by blast+
    then have "quick_check up (c # cs) (pre @ c # cs) = quick_check (c = CHR ''-'') cs (pre @ c # cs)"
      using v by (simp only: quick_check.simps simp_thms if_True if_False)
    ultimately show ?thesis by simp
  qed
qed


lemma Canonical_valid:
  "list_all validHeaderFieldByte s \<Longrightarrow> CanonicalMIMEHeaderKey s = canon_loop True s"
  using quick_check_canon [of "[]" s True] by (simp add: CanonicalMIMEHeaderKey_def)

lemma Canonical_case_insensitive:
  assumes "list_all validHeaderFieldByte key" "map lower key' = map lower key"
  shows "CanonicalMIMEHeaderKey key' = CanonicalMIMEHeaderKey key"
proof -
  from assms have "list_all validHeaderFieldByte key'" by (simp only: valid_lower_all [OF assms(2)])
  then have "CanonicalMIMEHeaderKey key' = canon_loop True key'" by (rule Canonical_valid)
  also have "\<dots> = canon_loop True key" using assms(2) by (rule canon_loop_lower)
  also have "\<dots> = CanonicalMIMEHeaderKey key" using assms(1) by (rule Canonical_valid [symmetric])
  finally show ?thesis .
qed


text \<open>
  Claim C6. With a non-empty key, \<open>Header key value\<close> hands on the request with the
  header entry of the canonical key replaced by the single value (whatever was there, an
  empty value too) and all other entries as they were; \<open>Get\<close> with the key returns the
  value, and so does \<open>Get\<close> with any spelling of a valid header name that differs in
  letter case only. With the empty key the request is handed on untouched.
\<close>

theorem Header_sets_or_passes:
  "(key \<noteq> [] \<longrightarrow>
      (\<forall>next w. Header key value next req w = next (req\<lparr>Hdr := (Hdr req)(CanonicalMIMEHeaderKey key \<mapsto> [value])\<rparr>) w)
      \<and> Get ((Hdr req)(CanonicalMIMEHeaderKey key \<mapsto> [value])) key = value
      \<and> (\<forall>key'. list_all validHeaderFieldByte key \<and> map lower key' = map lower key \<longrightarrow>
            Get ((Hdr req)(CanonicalMIMEHeaderKey key \<mapsto> [value])) key' = value)
      \<and> (\<forall>k. k \<noteq> CanonicalMIMEHeaderKey key \<longrightarrow> ((Hdr req)(CanonicalMIMEHeaderKey key \<mapsto> [value])) k = Hdr req k))
   \<and> (key = [] \<longrightarrow> (\<forall>next w. Header key value next req w = next req w))"
proof (intro conjI impI allI)
  show "Header key value nxt req w = nxt (req\<lparr>Hdr := (Hdr req)(CanonicalMIMEHeaderKey key \<mapsto> [value])\<rparr>) w"
    if "key \<noteq> []" for nxt :: "'a RoundTripper" and w
    using that by (simp add: Header_def RoundTripperFunc_def Set_def)
  show "Get ((Hdr req)(CanonicalMIMEHeaderKey key \<mapsto> [value])) key = value"
    by (simp add: Get_def)
  show "Get ((Hdr req)(CanonicalMIMEHeaderKey key \<mapsto> [value])) key' = value"
    if "list_all validHeaderFieldByte key \<and> map lower key' = map lower key" for key'
  proof -
    from that have "CanonicalMIMEHeaderKey key' = CanonicalMIMEHeaderKey key"
      using Canonical_case_insensitive by blast
    then show ?thesis by (simp add: Get_def)
  qed
  show "((Hdr req)(CanonicalMIMEHeaderKey key \<mapsto> [value])) k = Hdr req k"
    if "k \<noteq> CanonicalMIMEHeaderKey key" for k
    using that by simp
  show "Header key value nxt req w = nxt req w" if "key = []" for nxt :: "'b RoundTripper" and w
    using that by (simp add: Header_def RoundTripperFunc_def)
qed

theorem Header_sets_or_passes_witness:
  "''Authorization'' \<noteq> []
   \<and> Header ''Authorization'' ''Bearer example-token'' (mockRoundTripper None None)
        (newRequest ''GET'' zeroURL\<lparr>Hdr := [''Authorization'' \<mapsto> [''old'', ''older'']]\<rparr>) () =
      Inr ((None, None), newRequest ''GET'' zeroURL\<lparr>Hdr := [''Authorization'' \<mapsto> [''Bearer example-token'']]\<rparr>, ())
   \<and> list_all validHeaderFieldByte ''Authorization''
   \<and> map lower ''aUTHORIZATION'' = map lower ''Authorization''
   \<and> Get ((Hdr (newRequest ''GET'' zeroURL\<lparr>Hdr := [''Authorization'' \<mapsto> [''old'', ''older'']]\<rparr>))
             (CanonicalMIMEHeaderKey ''Authorization'' \<mapsto> [''Bearer example-token'']))
        ''aUTHORIZATION'' = ''Bearer example-token''"
proof -
  let ?req = "newRequest ''GET'' zeroURL\<lparr>Hdr := [''Authorization'' \<mapsto> [''old'', ''older'']]\<rparr>"
  have ne: "''Authorization'' \<noteq> []" by simp
  have v: "list_all validHeaderFieldByte ''Authorization''" by code_simp
  have l: "map lower ''aUTHORIZATION'' = map lower ''Authorization''" by code_simp
  have c: "CanonicalMIMEHeaderKey ''Authorization'' = ''Authorization''" by code_simp
  note t = Header_sets_or_passes [of "''Authorization''" "''Bearer example-token''" ?req,
      THEN conjunct1, THEN mp, OF ne]
  have "Header ''Authorization'' ''Bearer example-token'' (mockRoundTripper None None) ?req () =
      mockRoundTripper None None
        (?req\<lparr>Hdr := (Hdr ?req)(CanonicalMIMEHeaderKey ''Authorization'' \<mapsto> [''Bearer example-token''])\<rparr>) ()"
    by (rule t [THEN conjunct1, THEN spec, THEN spec])
  also have "\<dots> = Inr ((None, None), newRequest ''GET'' zeroURL\<lparr>Hdr := [''Authorization'' \<mapsto> [''Bearer example-token'']]\<rparr>, ())"
    unfolding c by (simp add: mockRoundTripper_def newRequest_def)
  finally have a: "Header ''Authorization'' ''Bearer example-token'' (mockRoundTripper None None) ?req () =
      Inr ((None, None), newRequest ''GET'' zeroURL\<lparr>Hdr := [''Authorization'' \<mapsto> [''Bearer example-token'']]\<rparr>, ())" .
  have b: "Get ((Hdr ?req)(CanonicalMIMEHeaderKey ''Authorization'' \<mapsto> [''Bearer example-token'']))
        ''aUTHORIZATION'' = ''Bearer example-token''"
    by (rule t [THEN conjunct2, THEN conjunct2, THEN conjunct1, THEN spec, THEN mp, OF conjI [OF v l]])
  show ?thesis
    by (intro conjI) (rule ne a v l b)+
qed

section \<open>BaseURL\<close>

lemma HasPrefix_slash: "HasPrefix s ''/'' = (s \<noteq> [] \<and> hd s = CHR ''/'')"
  by (cases s) (auto simp: HasPrefix_def)

lemma backtrack_ge: "dotdot \<le> w \<Longrightarrow> dotdot \<le> backtrack buf dotdot w"
  by (induction w) auto

lemma if_chain1: "\<not> A \<Longrightarrow> B \<Longrightarrow> (if A then x else if B then y else z) = y"
  by simp

lemma if_chain2: "\<not> A \<Longrightarrow> \<not> B \<Longrightarrow> C \<Longrightarrow> D \<Longrightarrow>
    (if A then x else if B then y else if C then (if D then u else v) else w) = u"
  by simp

lemma if_chain3: "\<not> A \<Longrightarrow> \<not> B \<Longrightarrow> C \<Longrightarrow> \<not> D \<Longrightarrow> \<not> E \<Longrightarrow>
    (if A then x else if B then y else if C then (if D then u else if E then v else v') else w) = v'"
  by simp

lemma if_chain4: "\<not> A \<Longrightarrow> \<not> B \<Longrightarrow> \<not> C \<Longrightarrow>
    (if A then x else if B then y else if C then z else w) = w"
  by simp

lemma Clean_loop_rooted:
  "rooted \<Longrightarrow> out \<noteq> [] \<Longrightarrow> hd out = CHR ''/'' \<Longrightarrow> 1 \<le> dotdot \<Longrightarrow>
     Clean_loop rooted rest out dotdot \<noteq> [] \<and> hd (Clean_loop rooted rest out dotdot) = CHR ''/''"
proof (induction rooted rest out dotdot rule: Clean_loop.induct)
  case (1 rooted out dotdot)
  then show ?case by simp
next
  case (2 rooted c cs out dotdot)
  note prems = "2.prems"
  show ?case
  proof (cases "c = CHR ''/''")
    case True
    then have eq: "Clean_loop rooted (c # cs) out dotdot = Clean_loop rooted cs out dotdot"
      by simp
    show ?thesis unfolding eq by (rule "2.IH"(1) [OF True prems])
  next
    case nslash: False
    show ?thesis
    proof (cases "c = CHR ''.'' \<and> (cs = [] \<or> hd cs = CHR ''/'')")
      case True
      have eq: "Clean_loop rooted (c # cs) out dotdot = Clean_loop rooted cs out dotdot"
        by (subst Clean_loop.simps) (rule if_chain1 [OF nslash True])
      show ?thesis unfolding eq by (rule "2.IH"(2) [OF nslash True prems])
    next
      case ndot: False
      show ?thesis
      proof (cases "c = CHR ''.'' \<and> hd cs = CHR ''.'' \<and> (tl cs = [] \<or> hd (tl cs) = CHR ''/'')")
        case dd: True
        show ?thesis
        proof (cases "length out > dotdot")
          case True
          let ?n = "backtrack out dotdot (length out - 1)"
          from True have "dotdot \<le> length out - 1" by simp
          then have "dotdot \<le> ?n" by (rule backtrack_ge)
          with prems have n: "1 \<le> ?n" by simp
          with prems have o: "take ?n out \<noteq> []" "hd (take ?n out) = CHR ''/''"
            by (cases out; cases ?n; simp)+
          have eq: "Clean_loop rooted (c # cs) out dotdot = Clean_loop rooted (tl cs) (take ?n out) dotdot"
            by (subst Clean_loop.simps) (rule if_chain2 [OF nslash ndot dd True])
          show ?thesis unfolding eq by (rule "2.IH"(3) [OF nslash ndot dd True prems(1) o prems(4)])
        next
          case False
          have nn: "\<not> \<not> rooted" using prems(1) by simp
          have eq: "Clean_loop rooted (c # cs) out dotdot = Clean_loop rooted (tl cs) out dotdot"
            by (subst Clean_loop.simps) (rule if_chain3 [OF nslash ndot dd False nn])
          show ?thesis unfolding eq by (rule "2.IH"(5) [OF nslash ndot dd False nn prems])
        qed
      next
        case nd: False
        let ?out = "(if rooted \<and> length out \<noteq> 1 \<or> \<not> rooted \<and> length out \<noteq> 0 then out @ ''/'' else out)
             @ c # takeWhile (\<lambda>x. x \<noteq> CHR ''/'') cs"
        from prems have o: "?out \<noteq> []" "hd ?out = CHR ''/''" by auto
        have eq: "Clean_loop rooted (c # cs) out dotdot =
              Clean_loop rooted (dropWhile (\<lambda>x. x \<noteq> CHR ''/'') cs) ?out dotdot"
          by (subst Clean_loop.simps) (rule if_chain4 [OF nslash ndot nd])
        show ?thesis unfolding eq by (rule "2.IH"(6) [OF nslash ndot nd prems(1) o prems(4)])
      qed
    qed
  qed
qed

lemma Clean_rooted: "HasPrefix path ''/'' \<Longrightarrow> HasPrefix (Clean path) ''/''"
proof -
  assume "HasPrefix path ''/''"
  then obtain cs where p: "path = CHR ''/'' # cs" by (cases path) (auto simp: HasPrefix_slash)
  have "Clean_loop True cs ''/'' 1 \<noteq> [] \<and> hd (Clean_loop True cs ''/'' 1) = CHR ''/''"
    by (rule Clean_loop_rooted) simp_all
  then show ?thesis by (simp add: p Clean_def HasPrefix_slash Let_def)
qed


lemma shouldEscape_slash: "\<not> shouldEscape CHR ''/''"
  by code_simp

lemma escape_rooted: "HasPrefix s ''/'' \<Longrightarrow> HasPrefix (escape s) ''/''"
  by (cases s) (auto simp: HasPrefix_slash escape_def shouldEscape_slash)

lemma EscapedPath_rooted:
  assumes "HasPrefix (Path u) ''/''" and "RawPath u = [] \<or> HasPrefix (RawPath u) ''/''"
  shows "HasPrefix (EscapedPath u) ''/''"
proof -
  from assms(1) have "Path u \<noteq> ''*''" by (auto simp: HasPrefix_slash)
  with assms escape_rooted [OF assms(1)] show ?thesis
    by (auto simp: EscapedPath_def)
qed

lemma Join_rooted: "HasPrefix e ''/'' \<Longrightarrow> HasPrefix (Join [e, r]) ''/''"
proof -
  assume e: "HasPrefix e ''/''"
  then have ne: "e \<noteq> []" by (simp add: HasPrefix_slash)
  then have "Join [e, r] = Clean (e @ ''/'' @ r)" by (simp add: Join_def)
  moreover from e ne have "HasPrefix (e @ ''/'' @ r) ''/''" by (simp add: HasPrefix_slash)
  ultimately show ?thesis by (simp only: Clean_rooted)
qed

lemma unescape_rooted: "unescape (CHR ''/'' # cs) = Inr t \<Longrightarrow> HasPrefix t ''/''"
  by (auto simp: HasPrefix_slash split: sum.splits)

lemma JoinPath_rooted_nonempty:
  assumes "HasPrefix (Path u) ''/''" and "RawPath u = [] \<or> HasPrefix (RawPath u) ''/''"
  shows "Path (JoinPath u [r]) \<noteq> []"
proof -
  let ?e = "EscapedPath u"
  have e: "HasPrefix ?e ''/''" using assms by (rule EscapedPath_rooted)
  let ?p = "Join [?e, r]"
  let ?p' = "if HasSuffix r ''/'' \<and> \<not> HasSuffix ?p ''/'' then ?p @ ''/'' else ?p"
  have jp: "JoinPath u [r] = fst (setPath u ?p')"
    using e by (simp add: JoinPath_def Let_def)
  have "HasPrefix ?p ''/''" using e by (rule Join_rooted)
  then have "HasPrefix ?p' ''/''" by (simp add: HasPrefix_slash)
  then obtain cs where p': "?p' = CHR ''/'' # cs" by (cases ?p') (auto simp: HasPrefix_slash)
  show ?thesis
  proof (cases "unescape ?p'")
    case (Inl err)
    then have "Path (fst (setPath u ?p')) = Path u" by (simp add: setPath_def)
    with assms(1) jp show ?thesis by (simp add: HasPrefix_slash)
  next
    case (Inr t)
    then have "HasPrefix t ''/''" unfolding p' by (rule unescape_rooted)
    moreover from Inr have "Path (fst (setPath u ?p')) = t" by (simp add: setPath_def)
    ultimately show ?thesis using jp by (simp add: HasPrefix_slash)
  qed
qed


lemma setPath_frame:
  "Scheme (fst (setPath u p)) = Scheme u"
  "Opaque (fst (setPath u p)) = Opaque u"
  "User (fst (setPath u p)) = User u"
  "Host (fst (setPath u p)) = Host u"
  "ForceQuery (fst (setPath u p)) = ForceQuery u"
  "RawQuery (fst (setPath u p)) = RawQuery u"
  "Fragment (fst (setPath u p)) = Fragment u"
  "RawFragment (fst (setPath u p)) = RawFragment u"
  by (simp_all add: setPath_def split: sum.splits)

lemma BaseURL_empty_scheme:
  "Scheme (URL req) = [] \<Longrightarrow>
     BaseURL b nxt req w =
     nxt (req\<lparr>URL := ResolveReference b ((URL req)\<lparr>Path := Path (JoinPath b [Path (URL req)])\<rparr>)\<rparr>) w"
  by (simp add: BaseURL_def RoundTripperFunc_def Let_def)

lemma ResolveReference_scheme_force:
  "Scheme ref = [] \<Longrightarrow>
     Scheme (ResolveReference u ref) = Scheme u \<and> ForceQuery (ResolveReference u ref) = ForceQuery ref"
  by (simp add: ResolveReference_def Let_def setPath_frame)

lemma ResolveReference_kept:
  assumes "Scheme ref = []"
    and "Host ref \<noteq> [] \<or> User ref \<noteq> None \<or> Opaque ref \<noteq> [] \<or> Path ref \<noteq> [] \<or> ForceQuery ref \<or> RawQuery ref \<noteq> []"
  shows "RawQuery (ResolveReference u ref) = RawQuery ref
       \<and> Fragment (ResolveReference u ref) = Fragment ref
       \<and> RawFragment (ResolveReference u ref) = RawFragment ref"
  using assms by (auto simp: ResolveReference_def Let_def setPath_frame)

lemma ResolveReference_copied:
  assumes "Scheme ref = []" "Host ref = []" "User ref = None" "Opaque ref = []" "Path ref = []"
    "\<not> ForceQuery ref" "RawQuery ref = []"
  shows "RawQuery (ResolveReference u ref) = RawQuery u
       \<and> Fragment (ResolveReference u ref) = (if Fragment ref = [] then Fragment u else Fragment ref)
       \<and> RawFragment (ResolveReference u ref) = (if Fragment ref = [] then RawFragment u else RawFragment ref)"
  using assms by (simp add: ResolveReference_def Let_def setPath_frame)

lemma ResolveReference_host:
  assumes "Scheme ref = []" "Host ref = []" "User ref = None" "Opaque ref = []"
    and "Path ref \<noteq> [] \<or> Opaque u = []"
  shows "Host (ResolveReference u ref) = Host u"
  using assms by (auto simp: ResolveReference_def Let_def setPath_frame)

lemma JoinPath_empty_empty:
  assumes "Path b = []" "RawPath b = []"
  shows "Path (JoinPath b [[]]) = []"
proof -
  have e: "EscapedPath b = []" using assms by (simp add: EscapedPath_def escape_def)
  have j: "Join [''/'', []] = ''/''" by code_simp
  have "unescape [] = Inr []" by simp
  then show ?thesis
    using assms by (simp add: JoinPath_def e j Let_def HasPrefix_def HasSuffix_def setPath_def)
qed


lemma BaseURL_resolved:
  assumes "Scheme (URL req) = []" "Host (URL req) = []" "User (URL req) = None" "Opaque (URL req) = []"
  shows "Scheme (ResolveReference b ((URL req)\<lparr>Path := Path (JoinPath b [Path (URL req)])\<rparr>)) = Scheme b"
    and "Opaque b = [] \<or> Path (JoinPath b [Path (URL req)]) \<noteq> [] \<Longrightarrow>
         Host (ResolveReference b ((URL req)\<lparr>Path := Path (JoinPath b [Path (URL req)])\<rparr>)) = Host b"
    and "RawQuery (URL req) \<noteq> [] \<or> ForceQuery (URL req) \<or> Path (JoinPath b [Path (URL req)]) \<noteq> [] \<Longrightarrow>
         RawQuery (ResolveReference b ((URL req)\<lparr>Path := Path (JoinPath b [Path (URL req)])\<rparr>)) = RawQuery (URL req)
       \<and> Fragment (ResolveReference b ((URL req)\<lparr>Path := Path (JoinPath b [Path (URL req)])\<rparr>)) = Fragment (URL req)
       \<and> RawFragment (ResolveReference b ((URL req)\<lparr>Path := Path (JoinPath b [Path (URL req)])\<rparr>)) = RawFragment (URL req)"
proof -
  let ?ref = "(URL req)\<lparr>Path := Path (JoinPath b [Path (URL req)])\<rparr>"
  have s: "Scheme ?ref = []" using assms by simp
  show "Scheme (ResolveReference b ?ref) = Scheme b"
    using ResolveReference_scheme_force [OF s, where u = b] by simp
  show "Host (ResolveReference b ?ref) = Host b" if "Opaque b = [] \<or> Path (JoinPath b [Path (URL req)]) \<noteq> []"
  proof -
    from assms that have "Host ?ref = []" "User ?ref = None" "Opaque ?ref = []" "Path ?ref \<noteq> [] \<or> Opaque b = []"
      by auto
    then show ?thesis by (rule ResolveReference_host [OF s])
  qed
  show "RawQuery (ResolveReference b ?ref) = RawQuery (URL req)
       \<and> Fragment (ResolveReference b ?ref) = Fragment (URL req)
       \<and> RawFragment (ResolveReference b ?ref) = RawFragment (URL req)"
    if "RawQuery (URL req) \<noteq> [] \<or> ForceQuery (URL req) \<or> Path (JoinPath b [Path (URL req)]) \<noteq> []"
    using ResolveReference_kept [OF s, where u = b] that by auto
qed

text \<open>
  Claim C4, amended. For a request whose URL has an empty scheme and no host, no userinfo
  and no opaque part, the URL that \<open>BaseURL\<close> hands on has the base URL's scheme. It has
  the base URL's host if the base URL has no opaque part or an absolute path. It has the
  request's own query string and fragment if the request URL has a query of its own or
  the base URL's path is absolute. The base URL's path is absolute when \<open>Path\<close> begins
  with a slash and \<open>RawPath\<close> is empty or begins with a slash.
\<close>

theorem BaseURL_scheme_host_query_fragment:
  assumes "Scheme (URL req) = []" and "Host (URL req) = []" and "User (URL req) = None" and "Opaque (URL req) = []"
  shows "\<exists>u'. (\<forall>next w. BaseURL b next req w = next (req\<lparr>URL := u'\<rparr>) w)
     \<and> Scheme u' = Scheme b
     \<and> (Opaque b = [] \<or> HasPrefix (Path b) ''/'' \<and> (RawPath b = [] \<or> HasPrefix (RawPath b) ''/'') \<longrightarrow>
        Host u' = Host b)
     \<and> (RawQuery (URL req) \<noteq> [] \<or> ForceQuery (URL req)
          \<or> HasPrefix (Path b) ''/'' \<and> (RawPath b = [] \<or> HasPrefix (RawPath b) ''/'') \<longrightarrow>
        RawQuery u' = RawQuery (URL req) \<and> Fragment u' = Fragment (URL req)
          \<and> RawFragment u' = RawFragment (URL req))"
proof -
  let ?u = "ResolveReference b ((URL req)\<lparr>Path := Path (JoinPath b [Path (URL req)])\<rparr>)"
  note r = BaseURL_resolved [OF assms, of b]
  have j: "Path (JoinPath b [Path (URL req)]) \<noteq> []"
    if "HasPrefix (Path b) ''/'' \<and> (RawPath b = [] \<or> HasPrefix (RawPath b) ''/'')"
    using that JoinPath_rooted_nonempty by blast
  have 1: "\<forall>nxt w. BaseURL b nxt req w = nxt (req\<lparr>URL := ?u\<rparr>) w"
    using assms(1) by (simp add: BaseURL_empty_scheme)
  have 2: "Scheme ?u = Scheme b" by (rule r(1))
  have 3: "Host ?u = Host b"
    if "Opaque b = [] \<or> HasPrefix (Path b) ''/'' \<and> (RawPath b = [] \<or> HasPrefix (RawPath b) ''/'')"
    using that j by (intro r(2)) blast
  have 4: "RawQuery ?u = RawQuery (URL req) \<and> Fragment ?u = Fragment (URL req)
          \<and> RawFragment ?u = RawFragment (URL req)"
    if "RawQuery (URL req) \<noteq> [] \<or> ForceQuery (URL req)
          \<or> HasPrefix (Path b) ''/'' \<and> (RawPath b = [] \<or> HasPrefix (RawPath b) ''/'')"
    using that j by (intro r(3)) blast
  from 1 2 3 4 show ?thesis by blast
qed

theorem BaseURL_scheme_host_query_fragment_witness:
  "Scheme (URL (newRequest ''GET'' (zeroURL\<lparr>Path := ''/oauth2/json'', RawQuery := ''param1=value1&param2=value2'', Fragment := ''fragment''\<rparr>))) = []
   \<and> Host (URL (newRequest ''GET'' (zeroURL\<lparr>Path := ''/oauth2/json'', RawQuery := ''param1=value1&param2=value2'', Fragment := ''fragment''\<rparr>))) = []
   \<and> User (URL (newRequest ''GET'' (zeroURL\<lparr>Path := ''/oauth2/json'', RawQuery := ''param1=value1&param2=value2'', Fragment := ''fragment''\<rparr>))) = None
   \<and> Opaque (URL (newRequest ''GET'' (zeroURL\<lparr>Path := ''/oauth2/json'', RawQuery := ''param1=value1&param2=value2'', Fragment := ''fragment''\<rparr>))) = []
   \<and> HasPrefix (Path test_baseURL) ''/'' \<and> RawPath test_baseURL = []
   \<and> (\<exists>u'. BaseURL test_baseURL (mockRoundTripper None None)
          (newRequest ''GET'' (zeroURL\<lparr>Path := ''/oauth2/json'', RawQuery := ''param1=value1&param2=value2'', Fragment := ''fragment''\<rparr>)) () =
         Inr ((None, None), newRequest ''GET'' u', ())
       \<and> Scheme u' = ''http'' \<and> Host u' = ''base.example.com''
       \<and> RawQuery u' = ''param1=value1&param2=value2'' \<and> Fragment u' = ''fragment'')"
proof -
  let ?url = "zeroURL\<lparr>Path := ''/oauth2/json'', RawQuery := ''param1=value1&param2=value2'', Fragment := ''fragment''\<rparr>"
  let ?r = "newRequest ''GET'' ?url"
  have s: "Scheme (URL ?r) = []" and h: "Host (URL ?r) = []" and u: "User (URL ?r) = None" and o: "Opaque (URL ?r) = []"
    by (simp_all add: newRequest_def zeroURL_def)
  have p: "HasPrefix (Path test_baseURL) ''/''" by (simp add: test_baseURL_def HasPrefix_def)
  have rp: "RawPath test_baseURL = []" by (simp add: test_baseURL_def zeroURL_def)
  from BaseURL_scheme_host_query_fragment [OF s h u o, of test_baseURL]
  obtain u' where 1: "\<forall>next w. BaseURL test_baseURL next ?r w = next (?r\<lparr>URL := u'\<rparr>) (w::unit)"
    and 2: "Scheme u' = Scheme test_baseURL"
    and 3: "Opaque test_baseURL = [] \<or> HasPrefix (Path test_baseURL) ''/'' \<and> (RawPath test_baseURL = [] \<or> HasPrefix (RawPath test_baseURL) ''/'') \<longrightarrow>
        Host u' = Host test_baseURL"
    and 4: "RawQuery (URL ?r) \<noteq> [] \<or> ForceQuery (URL ?r)
          \<or> HasPrefix (Path test_baseURL) ''/'' \<and> (RawPath test_baseURL = [] \<or> HasPrefix (RawPath test_baseURL) ''/'') \<longrightarrow>
        RawQuery u' = RawQuery (URL ?r) \<and> Fragment u' = Fragment (URL ?r)
          \<and> RawFragment u' = RawFragment (URL ?r)"
    by blast
  from 3 4 p rp have 5: "Host u' = Host test_baseURL \<and> RawQuery u' = RawQuery (URL ?r) \<and> Fragment u' = Fragment (URL ?r)"
    by blast
  from 1 have "BaseURL test_baseURL (mockRoundTripper None None) ?r () = mockRoundTripper None None (?r\<lparr>URL := u'\<rparr>) ()"
    by blast
  then have 6: "BaseURL test_baseURL (mockRoundTripper None None) ?r () = Inr ((None, None), newRequest ''GET'' u', ())"
    by (simp add: mockRoundTripper_def newRequest_def)
  from 2 5 have 7: "Scheme u' = ''http'' \<and> Host u' = ''base.example.com''
       \<and> RawQuery u' = ''param1=value1&param2=value2'' \<and> Fragment u' = ''fragment''"
    by (simp add: test_baseURL_def newRequest_def zeroURL_def)
  from s h u o p rp 6 7 show ?thesis by blast
qed

text \<open>
  The claim as stated fails for a request URL that is a fragment only (\<^verbatim>\<open>#section\<close>)
  against the base URL \<^verbatim>\<open>http://base.example.com?x=1#top\<close>: a reference with an empty
  path and no query takes the query of the base, so the request leaves with the query
  string \<^verbatim>\<open>x=1\<close>, which is not its own.
\<close>

theorem BaseURL_fragment_only_request_counterexample:
  "Scheme (URL (newRequest ''GET'' (zeroURL\<lparr>Fragment := ''section''\<rparr>))) = []
   \<and> BaseURL query_baseURL (mockRoundTripper None None) (newRequest ''GET'' (zeroURL\<lparr>Fragment := ''section''\<rparr>)) () =
      Inr ((None, None), newRequest ''GET'' (query_baseURL\<lparr>Fragment := ''section''\<rparr>), ())
   \<and> RawQuery (query_baseURL\<lparr>Fragment := ''section''\<rparr>) \<noteq>
      RawQuery (URL (newRequest ''GET'' (zeroURL\<lparr>Fragment := ''section''\<rparr>)))"
proof -
  let ?url = "zeroURL\<lparr>Fragment := ''section''\<rparr>"
  let ?r = "newRequest ''GET'' ?url"
  have s: "Scheme (URL ?r) = []" by (simp add: newRequest_def zeroURL_def)
  have ev: "ResolveReference query_baseURL (?url\<lparr>Path := Path (JoinPath query_baseURL [Path ?url])\<rparr>)
            = query_baseURL\<lparr>Fragment := ''section''\<rparr>"
    by code_simp
  have 1: "BaseURL query_baseURL (mockRoundTripper None None) ?r () =
      Inr ((None, None), newRequest ''GET'' (query_baseURL\<lparr>Fragment := ''section''\<rparr>), ())"
    using ev BaseURL_empty_scheme [OF s, of _ "mockRoundTripper None None" "()"]
    by (simp add: mockRoundTripper_def newRequest_def)
  have 2: "RawQuery (query_baseURL\<lparr>Fragment := ''section''\<rparr>) \<noteq> RawQuery (URL ?r)"
    by (simp add: query_baseURL_def newRequest_def zeroURL_def)
  show ?thesis by (intro conjI) (rule s 1 2)+
qed


text \<open>
  Claim C10, amended. For a request whose URL has an empty scheme and no host, no userinfo
  and no opaque part, the URL handed on keeps the request's own query string and fragment,
  and nothing of the base URL's query string or fragment is copied, if the request URL
  has a query of its own or the base URL's path is absolute (\<open>Path\<close> begins with a slash
  and \<open>RawPath\<close> is empty or begins with a slash). If the base URL's path and the
  request URL's path are both empty and the request has no query, the base URL's query
  string is copied, and its fragment too when the request has no fragment of its own.
\<close>

theorem base_query_copied_only_for_empty_reference:
  assumes "Scheme (URL req) = []" and "Host (URL req) = []" and "User (URL req) = None" and "Opaque (URL req) = []"
  shows "\<exists>u'. (\<forall>next w. BaseURL b next req w = next (req\<lparr>URL := u'\<rparr>) w)
     \<and> (RawQuery (URL req) \<noteq> [] \<or> ForceQuery (URL req)
          \<or> HasPrefix (Path b) ''/'' \<and> (RawPath b = [] \<or> HasPrefix (RawPath b) ''/'') \<longrightarrow>
        RawQuery u' = RawQuery (URL req) \<and> Fragment u' = Fragment (URL req)
          \<and> RawFragment u' = RawFragment (URL req))
     \<and> (Path b = [] \<and> RawPath b = [] \<and> Path (URL req) = [] \<and> RawQuery (URL req) = [] \<and> \<not> ForceQuery (URL req) \<longrightarrow>
        RawQuery u' = RawQuery b
          \<and> Fragment u' = (if Fragment (URL req) = [] then Fragment b else Fragment (URL req))
          \<and> RawFragment u' = (if Fragment (URL req) = [] then RawFragment b else RawFragment (URL req)))"
proof -
  let ?ref = "(URL req)\<lparr>Path := Path (JoinPath b [Path (URL req)])\<rparr>"
  let ?u = "ResolveReference b ?ref"
  note r = BaseURL_resolved [OF assms, of b]
  have s: "Scheme ?ref = []" using assms by simp
  have j: "Path (JoinPath b [Path (URL req)]) \<noteq> []"
    if "HasPrefix (Path b) ''/'' \<and> (RawPath b = [] \<or> HasPrefix (RawPath b) ''/'')"
    using that JoinPath_rooted_nonempty by blast
  have 1: "\<forall>nxt w. BaseURL b nxt req w = nxt (req\<lparr>URL := ?u\<rparr>) w"
    using assms(1) by (simp add: BaseURL_empty_scheme)
  have 2: "RawQuery ?u = RawQuery (URL req) \<and> Fragment ?u = Fragment (URL req)
          \<and> RawFragment ?u = RawFragment (URL req)"
    if "RawQuery (URL req) \<noteq> [] \<or> ForceQuery (URL req)
          \<or> HasPrefix (Path b) ''/'' \<and> (RawPath b = [] \<or> HasPrefix (RawPath b) ''/'')"
    using that j by (intro r(3)) blast
  have 3: "RawQuery ?u = RawQuery b
          \<and> Fragment ?u = (if Fragment (URL req) = [] then Fragment b else Fragment (URL req))
          \<and> RawFragment ?u = (if Fragment (URL req) = [] then RawFragment b else RawFragment (URL req))"
    if h: "Path b = [] \<and> RawPath b = [] \<and> Path (URL req) = [] \<and> RawQuery (URL req) = [] \<and> \<not> ForceQuery (URL req)"
  proof -
    from h have "Path (JoinPath b [Path (URL req)]) = []" by (simp add: JoinPath_empty_empty)
    with assms h have "Host ?ref = []" "User ?ref = None" "Opaque ?ref = []" "Path ?ref = []"
      "\<not> ForceQuery ?ref" "RawQuery ?ref = []" by simp_all
    from ResolveReference_copied [OF s this, where u = b] show ?thesis by simp
  qed
  from 1 2 3 show ?thesis by blast
qed

theorem base_query_copied_only_for_empty_reference_witness:
  "Scheme (URL (newRequest ''GET'' (zeroURL\<lparr>Path := ''/oauth2'', RawQuery := ''a=1''\<rparr>))) = []
   \<and> Host (URL (newRequest ''GET'' (zeroURL\<lparr>Path := ''/oauth2'', RawQuery := ''a=1''\<rparr>))) = []
   \<and> User (URL (newRequest ''GET'' (zeroURL\<lparr>Path := ''/oauth2'', RawQuery := ''a=1''\<rparr>))) = None
   \<and> Opaque (URL (newRequest ''GET'' (zeroURL\<lparr>Path := ''/oauth2'', RawQuery := ''a=1''\<rparr>))) = []
   \<and> RawQuery (URL (newRequest ''GET'' (zeroURL\<lparr>Path := ''/oauth2'', RawQuery := ''a=1''\<rparr>))) \<noteq> []
   \<and> (\<exists>u'. BaseURL query_baseURL (mockRoundTripper None None)
          (newRequest ''GET'' (zeroURL\<lparr>Path := ''/oauth2'', RawQuery := ''a=1''\<rparr>)) () =
         Inr ((None, None), newRequest ''GET'' u', ())
       \<and> RawQuery u' = ''a=1'' \<and> Fragment u' = [])
   \<and> Scheme (URL (newRequest ''GET'' zeroURL)) = []
   \<and> Host (URL (newRequest ''GET'' zeroURL)) = []
   \<and> User (URL (newRequest ''GET'' zeroURL)) = None
   \<and> Opaque (URL (newRequest ''GET'' zeroURL)) = []
   \<and> Path query_baseURL = [] \<and> RawPath query_baseURL = []
   \<and> Path (URL (newRequest ''GET'' zeroURL)) = [] \<and> RawQuery (URL (newRequest ''GET'' zeroURL)) = []
   \<and> (\<exists>u'. BaseURL query_baseURL (mockRoundTripper None None) (newRequest ''GET'' zeroURL) () =
         Inr ((None, None), newRequest ''GET'' u', ())
       \<and> RawQuery u' = ''x=1'' \<and> Fragment u' = ''top'')"
proof -
  let ?k = "newRequest ''GET'' (zeroURL\<lparr>Path := ''/oauth2'', RawQuery := ''a=1''\<rparr>)"
  let ?c = "newRequest ''GET'' zeroURL"
  have sk: "Scheme (URL ?k) = []" and hk: "Host (URL ?k) = []" and uk: "User (URL ?k) = None"
    and ok: "Opaque (URL ?k) = []" and qk: "RawQuery (URL ?k) \<noteq> []"
    by (simp_all add: newRequest_def zeroURL_def)
  have sc: "Scheme (URL ?c) = []" and hc: "Host (URL ?c) = []" and uc: "User (URL ?c) = None"
    and oc: "Opaque (URL ?c) = []" and pc: "Path (URL ?c) = []" and qc: "RawQuery (URL ?c) = []"
    and fc: "\<not> ForceQuery (URL ?c)"
    by (simp_all add: newRequest_def zeroURL_def)
  have pb: "Path query_baseURL = []" and rb: "RawPath query_baseURL = []"
    by (simp_all add: query_baseURL_def zeroURL_def)
  from base_query_copied_only_for_empty_reference [OF sk hk uk ok, of query_baseURL] qk
  obtain u1 where k1: "\<forall>next w. BaseURL query_baseURL next ?k w = next (?k\<lparr>URL := u1\<rparr>) (w::unit)"
    and k2: "RawQuery u1 = RawQuery (URL ?k) \<and> Fragment u1 = Fragment (URL ?k)"
    by blast
  from k1 have "BaseURL query_baseURL (mockRoundTripper None None) ?k () = mockRoundTripper None None (?k\<lparr>URL := u1\<rparr>) ()"
    by blast
  then have k3: "BaseURL query_baseURL (mockRoundTripper None None) ?k () = Inr ((None, None), newRequest ''GET'' u1, ())"
    by (simp add: mockRoundTripper_def newRequest_def)
  from k2 have k4: "RawQuery u1 = ''a=1'' \<and> Fragment u1 = []"
    by (simp add: newRequest_def zeroURL_def)
  from base_query_copied_only_for_empty_reference [OF sc hc uc oc, of query_baseURL] pb rb pc qc fc
  obtain u2 where c1: "\<forall>next w. BaseURL query_baseURL next ?c w = next (?c\<lparr>URL := u2\<rparr>) (w::unit)"
    and c2: "RawQuery u2 = RawQuery query_baseURL
          \<and> Fragment u2 = (if Fragment (URL ?c) = [] then Fragment query_baseURL else Fragment (URL ?c))"
    by blast
  from c1 have "BaseURL query_baseURL (mockRoundTripper None None) ?c () = mockRoundTripper None None (?c\<lparr>URL := u2\<rparr>) ()"
    by blast
  then have c3: "BaseURL query_baseURL (mockRoundTripper None None) ?c () = Inr ((None, None), newRequest ''GET'' u2, ())"
    by (simp add: mockRoundTripper_def newRequest_def)
  from c2 have c4: "RawQuery u2 = ''x=1'' \<and> Fragment u2 = ''top''"
    by (simp add: newRequest_def zeroURL_def query_baseURL_def)
  from sk hk uk ok qk k3 k4 sc hc uc oc pb rb pc qc c3 c4 show ?thesis by blast
qed

text \<open>
  The claim as stated fails for the empty request URL against a base URL without a path:
  the base URL's query string and fragment end up on the request.
\<close>

theorem base_query_copied_counterexample:
  "Scheme (URL (newRequest ''GET'' zeroURL)) = []
   \<and> BaseURL query_baseURL (mockRoundTripper None None) (newRequest ''GET'' zeroURL) () =
      Inr ((None, None), newRequest ''GET'' query_baseURL, ())
   \<and> RawQuery query_baseURL \<noteq> RawQuery (URL (newRequest ''GET'' zeroURL))
   \<and> Fragment query_baseURL \<noteq> Fragment (URL (newRequest ''GET'' zeroURL))"
proof -
  let ?r = "newRequest ''GET'' zeroURL"
  have s: "Scheme (URL ?r) = []" by (simp add: newRequest_def zeroURL_def)
  have ev: "ResolveReference query_baseURL (zeroURL\<lparr>Path := Path (JoinPath query_baseURL [Path zeroURL])\<rparr>)
            = query_baseURL"
    by code_simp
  have "BaseURL query_baseURL (mockRoundTripper None None) ?r () = Inr ((None, None), newRequest ''GET'' query_baseURL, ())"
    using ev BaseURL_empty_scheme [OF s, of _ "mockRoundTripper None None" "()"]
    by (simp add: mockRoundTripper_def newRequest_def)
  moreover have "RawQuery query_baseURL \<noteq> RawQuery (URL ?r)" "Fragment query_baseURL \<noteq> Fragment (URL ?r)"
    by (simp_all add: query_baseURL_def newRequest_def zeroURL_def)
  ultimately show ?thesis using s by blast
qed

text \<open>
  A request URL with a host and no scheme (\<^verbatim>\<open>//other.example.org/x\<close>) is outside the
  claims C4 and C10 as amended. It leaves with its own host and with the base path in
  front of its path, where the doc comment of \<^verbatim>\<open>BaseURL\<close> says that all outgoing
  requests use the base URL.
\<close>

lemma BaseURL_request_with_host:
  "BaseURL test_baseURL (mockRoundTripper None None)
        (newRequest ''GET'' (zeroURL\<lparr>Host := ''other.example.org'', Path := ''/x''\<rparr>)) () =
      Inr ((None, None), newRequest ''GET'' (zeroURL\<lparr>Scheme := ''http'', Host := ''other.example.org'', Path := ''/am/x''\<rparr>), ())"
proof -
  let ?url = "zeroURL\<lparr>Host := ''other.example.org'', Path := ''/x''\<rparr>"
  let ?r = "newRequest ''GET'' ?url"
  have s: "Scheme (URL ?r) = []" by (simp add: newRequest_def zeroURL_def)
  have ev: "ResolveReference test_baseURL (?url\<lparr>Path := Path (JoinPath test_baseURL [Path ?url])\<rparr>)
            = zeroURL\<lparr>Scheme := ''http'', Host := ''other.example.org'', Path := ''/am/x''\<rparr>"
    by code_simp
  show ?thesis
    using ev BaseURL_empty_scheme [OF s, of _ "mockRoundTripper None None" "()"]
    by (simp add: mockRoundTripper_def newRequest_def)
qed

text \<open>
  The paths of \<^verbatim>\<open>TestBaseURLInterceptor\<close>: the code and the specification's wording give
  the expected paths of the test on each of them.
\<close>

lemma BaseURL_test_table:
  "map (\<lambda>p. Path (ResolveReference test_baseURL (zeroURL\<lparr>Path := Path (JoinPath test_baseURL [p])\<rparr>)))
     [''/oauth2'', ''/oauth2/json'', ''oauth2/json'', ''../openidm'', ''../openidm/query'', ''../../openidm'',
      ''../../../../openidm'', ''../am/../other/openidm'', ''/../am/../other/openidm''] =
   [''/am/oauth2'', ''/am/oauth2/json'', ''/am/oauth2/json'', ''/openidm'', ''/openidm/query'', ''/openidm'',
    ''/openidm'', ''/other/openidm'', ''/other/openidm'']"
  by code_simp

lemma spec_resolved_path_test_table:
  "map (spec_resolved_path ''/am'')
     [''/oauth2'', ''/oauth2/json'', ''oauth2/json'', ''../openidm'', ''../openidm/query'', ''../../openidm'',
      ''../../../../openidm'', ''../am/../other/openidm'', ''/../am/../other/openidm''] =
   [''/am/oauth2'', ''/am/oauth2/json'', ''/am/oauth2/json'', ''/openidm'', ''/openidm/query'', ''/openidm'',
    ''/openidm'', ''/other/openidm'', ''/other/openidm'']"
  by code_simp

text \<open>
  Claim C2, at the input where the code departs from it. The request path handed to
  \<open>JoinPath\<close> is the decoded path, and \<open>JoinPath\<close> decodes it once more. For the
  request \<^verbatim>\<open>/100%25\<close> (path \<^verbatim>\<open>/100%\<close>) the decoding fails, the error is dropped and
  the request goes to the base path \<^verbatim>\<open>/am\<close> alone, where joining and normalising gives
  \<^verbatim>\<open>/am/100%\<close>. For the request \<^verbatim>\<open>/a%2541\<close> (path \<^verbatim>\<open>/a%41\<close>) the path becomes
  \<^verbatim>\<open>/am/aA\<close>, where joining gives \<^verbatim>\<open>/am/a%41\<close>.
\<close>

theorem BaseURL_drops_path_with_percent:
  "Scheme (URL (newRequest ''GET'' (zeroURL\<lparr>Path := ''/100%''\<rparr>))) = []
   \<and> BaseURL test_baseURL (mockRoundTripper None None) (newRequest ''GET'' (zeroURL\<lparr>Path := ''/100%''\<rparr>)) () =
      Inr ((None, None), newRequest ''GET'' test_baseURL, ())
   \<and> Path test_baseURL = ''/am''
   \<and> spec_resolved_path ''/am'' ''/100%'' = ''/am/100%''
   \<and> BaseURL test_baseURL (mockRoundTripper None None) (newRequest ''GET'' (zeroURL\<lparr>Path := ''/a%41''\<rparr>)) () =
      Inr ((None, None), newRequest ''GET'' (test_baseURL\<lparr>Path := ''/am/aA''\<rparr>), ())
   \<and> spec_resolved_path ''/am'' ''/a%41'' = ''/am/a%41''"
proof -
  let ?r = "newRequest ''GET'' (zeroURL\<lparr>Path := ''/100%''\<rparr>)"
  let ?q = "newRequest ''GET'' (zeroURL\<lparr>Path := ''/a%41''\<rparr>)"
  have s: "Scheme (URL ?r) = []" and sq: "Scheme (URL ?q) = []" by (simp_all add: newRequest_def zeroURL_def)
  have ev: "ResolveReference test_baseURL ((zeroURL\<lparr>Path := ''/100%''\<rparr>)\<lparr>Path := Path (JoinPath test_baseURL [Path (zeroURL\<lparr>Path := ''/100%''\<rparr>)])\<rparr>)
            = test_baseURL"
    by code_simp
  have evq: "ResolveReference test_baseURL ((zeroURL\<lparr>Path := ''/a%41''\<rparr>)\<lparr>Path := Path (JoinPath test_baseURL [Path (zeroURL\<lparr>Path := ''/a%41''\<rparr>)])\<rparr>)
            = test_baseURL\<lparr>Path := ''/am/aA''\<rparr>"
    by code_simp
  have 1: "BaseURL test_baseURL (mockRoundTripper None None) ?r () = Inr ((None, None), newRequest ''GET'' test_baseURL, ())"
    using ev BaseURL_empty_scheme [OF s, of _ "mockRoundTripper None None" "()"]
    by (simp add: mockRoundTripper_def newRequest_def)
  have 2: "BaseURL test_baseURL (mockRoundTripper None None) ?q () =
      Inr ((None, None), newRequest ''GET'' (test_baseURL\<lparr>Path := ''/am/aA''\<rparr>), ())"
    using evq BaseURL_empty_scheme [OF sq, of _ "mockRoundTripper None None" "()"]
    by (simp add: mockRoundTripper_def newRequest_def)
  have 3: "Path test_baseURL = ''/am''" by (simp add: test_baseURL_def)
  have 4: "spec_resolved_path ''/am'' ''/100%'' = ''/am/100%''" by code_simp
  have 5: "spec_resolved_path ''/am'' ''/a%41'' = ''/am/a%41''" by code_simp
  from s 1 2 3 4 5 show ?thesis by blast
qed

end
